theory Spec2Isabelle
  imports Complex_Main "HOL-Library.Word" "HOL-Library.Multiset"
begin

section \<open>Text and the trigram indexer\<close>

text \<open>
  A Go \<^verbatim>\<open>string\<close> is a byte sequence; \<^verbatim>\<open>[]rune(s)\<close> decodes it into Unicode code
  points (an invalid byte decodes to U+FFFD). The functions of the repository that work on
  characters convert to \<^verbatim>\<open>[]rune\<close> first, so a text is modelled by the list of code
  points that \<^verbatim>\<open>[]rune(s)\<close> yields. Where the source counts or cuts bytes
  (\<^verbatim>\<open>len(s)\<close>, \<^verbatim>\<open>s[:200]\<close>, the index of \<^verbatim>\<open>for i, r := range s\<close>) the model
  goes through the UTF-8 encoding of the code points; a byte is a \<^typ>\<open>char\<close>.
\<close>

type_synonym rune = nat

type_synonym utext = "rune list"

definition runes_of :: "string \<Rightarrow> utext" where
  "runes_of s = map of_char s"

text \<open>\<^verbatim>\<open>utf8.RuneLen\<close> for the code points a decoded string holds.\<close>

definition RuneLen :: "rune \<Rightarrow> nat" where
  "RuneLen r = (if r < 0x80 then 1 else if r < 0x800 then 2 else if r < 0x10000 then 3 else 4)"

text \<open>\<^verbatim>\<open>len(s)\<close> of the Go string holding the text: its length in bytes.\<close>

definition byteLen :: "utext \<Rightarrow> nat" where
  "byteLen s = sum_list (map RuneLen s)"

text \<open>\<^verbatim>\<open>utf8.EncodeRune\<close>: the bytes of one code point.\<close>

definition EncodeRune :: "rune \<Rightarrow> string" where
  "EncodeRune r =
     (if r < 0x80 then [char_of r]
      else if r < 0x800 then [char_of (0xC0 + r div 64), char_of (0x80 + r mod 64)]
      else if r < 0x10000 then
        [char_of (0xE0 + r div 4096), char_of (0x80 + (r div 64) mod 64), char_of (0x80 + r mod 64)]
      else
        [char_of (0xF0 + r div 262144), char_of (0x80 + (r div 4096) mod 64),
         char_of (0x80 + (r div 64) mod 64), char_of (0x80 + r mod 64)])"

definition utf8 :: "utext \<Rightarrow> string" where
  "utf8 s = concat (map EncodeRune s)"

text \<open>
  \<^verbatim>\<open>unicode.IsSpace\<close>: the Latin-1 spaces (tab, LF, VT, FF, CR, space, U+0085, U+00A0)
  and the code points of the White\_Space property beyond Latin-1.
\<close>

definition IsSpace :: "rune \<Rightarrow> bool" where
  "IsSpace r \<longleftrightarrow>
     (9 \<le> r \<and> r \<le> 13) \<or> r = 32 \<or> r = 0x85 \<or> r = 0xA0 \<or> r = 0x1680 \<or>
     (0x2000 \<le> r \<and> r \<le> 0x200A) \<or> r = 0x2028 \<or> r = 0x2029 \<or> r = 0x202F \<or>
     r = 0x205F \<or> r = 0x3000"

text \<open>\<^verbatim>\<open>strings.TrimSpace\<close>: leading and trailing white space removed.\<close>

definition TrimSpace :: "utext \<Rightarrow> utext" where
  "TrimSpace s = rev (dropWhile IsSpace (rev (dropWhile IsSpace s)))"

text \<open>
  \<^verbatim>\<open>strings.ToLower\<close> maps \<^verbatim>\<open>unicode.ToLower\<close> over the code points. The Unicode case
  table is not part of the repository: it is the parameter \<open>lower\<close> of the functions
  that call it. \<open>asciiLower\<close> is the table restricted to ASCII, for concrete runs.
\<close>

definition ToLower :: "(rune \<Rightarrow> rune) \<Rightarrow> utext \<Rightarrow> utext" where
  "ToLower lower s = map lower s"

definition asciiLower :: "rune \<Rightarrow> rune" where
  "asciiLower r = (if 65 \<le> r \<and> r \<le> 90 then r + 32 else r)"

text \<open>
  The loop \<^verbatim>\<open>for i := 0; i <= len(runes)-3; i++\<close> with its two accumulators, the
  map \<^verbatim>\<open>seen\<close> (a set of trigrams) and the slice \<^verbatim>\<open>trigrams\<close>. The guard is
  evaluated on Go's \<^verbatim>\<open>int\<close>, where \<^verbatim>\<open>len(runes)-3\<close> may be negative; under the guard
  the slice expression \<^verbatim>\<open>runes[i : i+3]\<close> is within bounds.
\<close>

function trigramLoop :: "utext \<Rightarrow> nat \<Rightarrow> utext set \<Rightarrow> utext list \<Rightarrow> utext list" where
  "trigramLoop runes i seen trigrams =
     (if int i \<le> int (length runes) - 3 then
        (let t = take 3 (drop i runes) in
         if t \<in> seen then trigramLoop runes (i + 1) seen trigrams
         else trigramLoop runes (i + 1) (insert t seen) (trigrams @ [t]))
      else trigrams)"
  by pat_completeness auto

termination
  by (relation "measure (\<lambda>(runes, i, seen, trigrams). length runes - i)") auto

definition GenerateTrigrams :: "(rune \<Rightarrow> rune) \<Rightarrow> utext \<Rightarrow> utext list" where
  "GenerateTrigrams lower s0 =
     (let s = TrimSpace (ToLower lower s0) in
      if byteLen s < 3 then [] else trigramLoop s 0 {} [])"

declare trigramLoop.simps [simp del]

text \<open>The windows of three code points of a text that start at position \<open>i\<close> or later.\<close>

definition windowsFrom :: "utext \<Rightarrow> nat \<Rightarrow> utext set" where
  "windowsFrom s i = {take 3 (drop j s) | j. i \<le> j \<and> j + 3 \<le> length s}"

section \<open>Chunker\<close>

text \<open>
  Package ingest. \<^verbatim>\<open>Config\<close> as the source declares it; Go's \<^verbatim>\<open>int\<close> is modelled by
  \<^typ>\<open>int\<close>. The loop adds a chunk size to an index below the text length and
  subtracts the overlap from an index up to the text length; for a text that fits in
  memory and the configurations of the claims (\<open>0 \<le> overlap < size\<close>) these stay
  within 64 bits whenever they are computed, so no wrap-around is written out.
\<close>

record Config =
  ChunkSize :: int
  ChunkOverlap :: int
  UseOpenAI :: bool
  OpenAIKey :: string
  OpenAIModel :: string

text \<open>The run-time panics of Go that the chunker's index and slice expressions can raise.\<close>

datatype panic = IndexOutOfRange | SliceBoundsOutOfRange

text \<open>\<^verbatim>\<open>strings.ReplaceAll(text, "\r\n", "\n")\<close>: CR LF pairs, left to right, become LF.\<close>

fun ReplaceCRLF :: "utext \<Rightarrow> utext" where
  "ReplaceCRLF [] = []"
| "ReplaceCRLF [c] = [c]"
| "ReplaceCRLF (c # d # s) =
     (if c = 13 \<and> d = 10 then 10 # ReplaceCRLF s else c # ReplaceCRLF (d # s))"

text \<open>Go's integer division truncates towards zero.\<close>

definition go_quot :: "int \<Rightarrow> int \<Rightarrow> int" where
  "go_quot a b = sgn a * sgn b * (\<bar>a\<bar> div \<bar>b\<bar>)"

text \<open>
  The two backward scans \<^verbatim>\<open>for i := end; i > start+chunkSize/2; i-- { if p(runes[i]) { ...; break } }\<close>:
  the first index, going down from \<open>i\<close> and staying above \<open>lo\<close>, whose code point
  satisfies \<open>p\<close>; \<^verbatim>\<open>runes[i]\<close> panics outside the slice.
\<close>

function scanBack :: "(rune \<Rightarrow> bool) \<Rightarrow> utext \<Rightarrow> int \<Rightarrow> int \<Rightarrow> panic + int option" where
  "scanBack p runes i lo =
     (if i > lo then
        (if i < 0 \<or> int (length runes) \<le> i then Inl IndexOutOfRange
         else if p (runes ! nat i) then Inr (Some i)
         else scanBack p runes (i - 1) lo)
      else Inr None)"
  by pat_completeness auto

termination
  by (relation "measure (\<lambda>(p, runes, i, lo). nat (i - lo))") auto

declare scanBack.simps [simp del]

definition isSentenceEnd :: "rune \<Rightarrow> bool" where
  "isSentenceEnd r \<longleftrightarrow> r = 46 \<or> r = 10"

definition isBlank :: "rune \<Rightarrow> bool" where
  "isBlank r \<longleftrightarrow> r = 32"

text \<open>
  The first half of the loop body: the window's end. It is \<^verbatim>\<open>start + chunkSize\<close>
  clamped to the text length; short of the text's end it is pulled back to just after a
  sentence terminator found above the window's midpoint, and, where \<^verbatim>\<open>end\<close> still
  equals \<^verbatim>\<open>start + chunkSize\<close>, to a space found there.
\<close>

definition windowEnd :: "Config \<Rightarrow> utext \<Rightarrow> int \<Rightarrow> panic + int" where
  "windowEnd cfg runes start =
     (let textLen = int (length runes);
          chunkSize = ChunkSize cfg;
          end0 = start + chunkSize;
          end1 = (if end0 > textLen then textLen else end0)
      in if end1 < textLen then
           (case scanBack isSentenceEnd runes end1 (start + go_quot chunkSize 2) of
              Inl e \<Rightarrow> Inl e
            | Inr r \<Rightarrow>
                (let end2 = (case r of Some i \<Rightarrow> i + 1 | None \<Rightarrow> end1)
                 in if end2 = start + chunkSize \<and> end2 < textLen then
                      (case scanBack isBlank runes end2 (start + go_quot chunkSize 2) of
                         Inl e \<Rightarrow> Inl e
                       | Inr r' \<Rightarrow> Inr (case r' of Some i \<Rightarrow> i | None \<Rightarrow> end2))
                    else Inr end2))
         else Inr end1)"

text \<open>The slice expression \<^verbatim>\<open>runes[lo:hi]\<close>; it panics when the bounds are out of order or range.\<close>

definition sliceRunes :: "utext \<Rightarrow> int \<Rightarrow> int \<Rightarrow> panic + utext" where
  "sliceRunes runes lo hi =
     (if lo < 0 \<or> hi < lo \<or> int (length runes) < hi then Inl SliceBoundsOutOfRange
      else Inr (take (nat (hi - lo)) (drop (nat lo) runes)))"

text \<open>
  The loop \<^verbatim>\<open>for start := 0; start < textLen; { ... }\<close> with the slice \<^verbatim>\<open>chunks\<close>
  it appends to. The loop has no bound of its own, so it is a partial function: the value
  \<open>None\<close> stands for a run that never returns, \<open>Some (Inl p)\<close> for a panic and
  \<open>Some (Inr chunks)\<close> for the returned slice.
\<close>

partial_function (option) chunkLoop ::
  "Config \<Rightarrow> utext \<Rightarrow> int \<Rightarrow> utext list \<Rightarrow> (panic + utext list) option" where
  "chunkLoop cfg runes start chunks =
     (if start < int (length runes) then
        (case windowEnd cfg runes start of
           Inl e \<Rightarrow> Some (Inl e)
         | Inr fin \<Rightarrow>
             (case sliceRunes runes start fin of
                Inl e \<Rightarrow> Some (Inl e)
              | Inr piece \<Rightarrow>
                  (let chunk = TrimSpace piece;
                       chunks' = (if byteLen chunk > 0 then chunks @ [chunk] else chunks);
                       start' = (if fin - ChunkOverlap cfg < 0 then 0 else fin - ChunkOverlap cfg)
                   in if fin \<ge> int (length runes) then Some (Inr chunks')
                      else chunkLoop cfg runes start' chunks')))
      else Some (Inr chunks))"

text \<open>\<^verbatim>\<open>chunkText\<close>: trim, normalise line endings, convert to code points, run the loop.\<close>

definition chunkText :: "Config \<Rightarrow> utext \<Rightarrow> (panic + utext list) option" where
  "chunkText cfg text0 =
     (let runes = ReplaceCRLF (TrimSpace text0)
      in if length runes = 0 then Some (Inr []) else chunkLoop cfg runes 0 [])"

declare chunkLoop.simps [code]

text \<open>Configurations and a text for concrete runs.\<close>

definition cfg43 :: Config where
  "cfg43 = \<lparr>ChunkSize = 4, ChunkOverlap = 3, UseOpenAI = False, OpenAIKey = [], OpenAIModel = []\<rparr>"

definition cfg30 :: Config where
  "cfg30 = \<lparr>ChunkSize = 3, ChunkOverlap = 0, UseOpenAI = False, OpenAIKey = [], OpenAIModel = []\<rparr>"

text \<open>
  Position \<open>i\<close> of the text is covered by the chunks: one of them is the trimmed window
  \<open>[lo, hi)\<close> of the text with \<open>lo \<le> i < hi\<close>, and it holds the code point at \<open>i\<close>.
\<close>

definition covered :: "utext \<Rightarrow> utext list \<Rightarrow> nat \<Rightarrow> bool" where
  "covered runes chunks i \<longleftrightarrow>
     (\<exists>c \<in> set chunks. \<exists>lo \<in> {0..i}. \<exists>hi \<in> {i + 1..length runes}.
        c = TrimSpace (take (hi - lo) (drop lo runes)) \<and> runes ! i \<in> set c)"

definition stuckText :: utext where
  "stuckText = runes_of ''abc defgh''"

definition cfg102 :: Config where
  "cfg102 = \<lparr>ChunkSize = 10, ChunkOverlap = 2, UseOpenAI = False, OpenAIKey = [], OpenAIModel = []\<rparr>"

section \<open>Store, search and ranking\<close>

unbundle bit_operations_syntax

text \<open>
  Floating point. The search code computes with Go's \<^verbatim>\<open>float32\<close> and \<^verbatim>\<open>float64\<close>. Their
  operations are not interpreted: they are the fields of a record that every function of
  the model takes as its parameter \<open>ops\<close>, with \<open>'s\<close> standing for \<^verbatim>\<open>float32\<close> and \<open>'d\<close> for
  \<^verbatim>\<open>float64\<close>. A property proved for every \<open>ops\<close> holds for IEEE 754 arithmetic in particular.
  \<open>f64_eq\<close> and \<open>f64_gt\<close> are Go's comparisons on \<^verbatim>\<open>float64\<close> (false on NaN), \<open>f32_bits\<close> and
  \<open>f32_frombits\<close> are \<^verbatim>\<open>math.Float32bits\<close> and \<^verbatim>\<open>math.Float32frombits\<close>, and a numeric
  constant \<^verbatim>\<open>c\<close> of the source is \<open>f64_of_int ops c\<close> or \<open>f32_of_int ops c\<close>.
\<close>

record ('s, 'd) fpu =
  f32_of_int :: "int \<Rightarrow> 's"
  f32_add :: "'s \<Rightarrow> 's \<Rightarrow> 's"
  f32_mul :: "'s \<Rightarrow> 's \<Rightarrow> 's"
  f32_div :: "'s \<Rightarrow> 's \<Rightarrow> 's"
  f32_gt :: "'s \<Rightarrow> 's \<Rightarrow> bool"
  f32_of_f64 :: "'d \<Rightarrow> 's"
  f32_bits :: "'s \<Rightarrow> 32 word"
  f32_frombits :: "32 word \<Rightarrow> 's"
  f64_of_f32 :: "'s \<Rightarrow> 'd"
  f64_of_int :: "int \<Rightarrow> 'd"
  f64_add :: "'d \<Rightarrow> 'd \<Rightarrow> 'd"
  f64_mul :: "'d \<Rightarrow> 'd \<Rightarrow> 'd"
  f64_div :: "'d \<Rightarrow> 'd \<Rightarrow> 'd"
  f64_sqrt :: "'d \<Rightarrow> 'd"
  f64_eq :: "'d \<Rightarrow> 'd \<Rightarrow> bool"
  f64_gt :: "'d \<Rightarrow> 'd \<Rightarrow> bool"

text \<open>
  One interpretation, used to evaluate the model on concrete inputs: exact arithmetic on
  the reals for both widths. Its bit pattern of a number is the 32-bit two's complement of
  its integer part, which is enough to store and read back the small integers of the
  example store below; it is not the IEEE encoding.
\<close>

definition exact_fpu :: "(real, real) fpu" where
  "exact_fpu = \<lparr>f32_of_int = of_int, f32_add = (+), f32_mul = (*), f32_div = (/),
     f32_gt = (\<lambda>a b. a > b), f32_of_f64 = id, f32_bits = (\<lambda>x. word_of_int \<lfloor>x\<rfloor>),
     f32_frombits = (\<lambda>w. real_of_int (sint w)),
     f64_of_f32 = id, f64_of_int = of_int, f64_add = (+), f64_mul = (*), f64_div = (/),
     f64_sqrt = sqrt, f64_eq = (=), f64_gt = (\<lambda>a b. a > b)\<rparr>"

text \<open>
  A Go \<^verbatim>\<open>error\<close> is its message; a \<^verbatim>\<open>[]byte\<close> is a list of 8-bit words.
\<close>

type_synonym error = string

type_synonym blob = "8 word list"

text \<open>
  \<^verbatim>\<open>type Document struct\<close>: \<^verbatim>\<open>int64\<close> identifiers are unbounded integers here (no
  arithmetic is done on them), the chunk is a list of code points.
\<close>

record Document =
  ID :: int
  Chunk :: utext
  ChunkIndex :: int

text \<open>
  \<^verbatim>\<open>type SearchResult struct\<close>. The snippet is kept as bytes, because the source slices it
  by byte index.
\<close>

record 'd SearchResult =
  ID :: int
  Score :: 'd
  Snippet :: string

text \<open>
  The database connection. \<^verbatim>\<open>db.conn.Query\<close> either fails, or gives a cursor: the rows it
  will yield, each of which scans to a value or to an error, and the error that
  \<^verbatim>\<open>rows.Err()\<close> reports once \<^verbatim>\<open>rows.Next()\<close> has returned false.
\<close>

datatype 'a cursor = QueryError error | Rows "(error + 'a) list" "error option"

text \<open>
  \<^verbatim>\<open>QueryRow(...).Scan(...)\<close> gives the row, \<^verbatim>\<open>sql.ErrNoRows\<close>, or another error.
\<close>

datatype 'a row_scan = Scanned 'a | ErrNoRows | ScanError error

text \<open>
  The three queries of the code under study, as functions of their bound parameters: the
  trigram query takes the list bound to the \<^verbatim>\<open>IN (...)\<close> placeholders and the limit.
\<close>

record conn =
  queryTrigrams :: "utext list \<Rightarrow> int \<Rightarrow> (int \<times> utext \<times> int) cursor"
  queryEmbeddings :: "(int \<times> blob \<times> utext) cursor"
  queryDocument :: "int \<Rightarrow> Document row_scan"

text \<open>
  \<^verbatim>\<open>func (db *DB) GetDocument(id int64) (*Document, error)\<close>: a missing row is
  \<^verbatim>\<open>(nil, nil)\<close>.
\<close>

definition GetDocument :: "conn \<Rightarrow> int \<Rightarrow> Document option \<times> error option" where
  "GetDocument db i =
     (case queryDocument db i of
        ErrNoRows \<Rightarrow> (None, None)
      | ScanError e \<Rightarrow> (None, Some (''failed to get document: '' @ e))
      | Scanned doc \<Rightarrow> (Some doc, None))"

text \<open>
  The snippet that both searches build from a chunk:
  \<^verbatim>\<open>snippet := chunk; if len(snippet) > 200 { snippet = snippet[:200] + "..." }\<close>.
  \<^verbatim>\<open>len\<close> and the slice count bytes of the UTF-8 encoding.
\<close>

definition snippetOf :: "utext \<Rightarrow> string" where
  "snippetOf chunk =
     (let snippet = utf8 chunk
      in if length snippet > 200 then take 200 snippet @ ''...'' else snippet)"

text \<open>
  The \<^verbatim>\<open>for rows.Next()\<close> loop of \<^verbatim>\<open>SearchTrigrams\<close>: a row that fails to scan ends the
  function with that error, any other row is appended with the score
  \<^verbatim>\<open>float64(matchCount) / queryTrigramCount\<close>.
\<close>

fun trigramRows ::
  "('s, 'd) fpu \<Rightarrow> 'd \<Rightarrow> (error + int \<times> utext \<times> int) list \<Rightarrow> 'd SearchResult list \<Rightarrow>
   error + 'd SearchResult list" where
  "trigramRows ops queryTrigramCount [] results = Inr results"
| "trigramRows ops queryTrigramCount (Inl e # rows) results = Inl e"
| "trigramRows ops queryTrigramCount (Inr (i, chunk, matchCount) # rows) results =
     trigramRows ops queryTrigramCount rows
       (results @ [\<lparr>ID = i,
                     Score = f64_div ops (f64_of_int ops matchCount) queryTrigramCount,
                     Snippet = snippetOf chunk\<rparr>])"

text \<open>
  \<^verbatim>\<open>func (db *DB) SearchTrigrams(query string, limit int) ([]SearchResult, error)\<close>. The
  result is Go's pair: the slice (\<^verbatim>\<open>nil\<close> and the empty slice are both \<open>[]\<close>) and the error
  (\<open>None\<close> for \<^verbatim>\<open>nil\<close>). The last return is \<^verbatim>\<open>results, rows.Err()\<close>, so both components
  can be set.
\<close>

definition SearchTrigrams ::
  "(rune \<Rightarrow> rune) \<Rightarrow> ('s, 'd) fpu \<Rightarrow> conn \<Rightarrow> utext \<Rightarrow> int \<Rightarrow>
   'd SearchResult list \<times> error option" where
  "SearchTrigrams lower ops db query limit =
     (let qts = GenerateTrigrams lower (ToLower lower query)
      in if length qts = 0 then ([], None)
         else (case queryTrigrams db qts limit of
                 QueryError e \<Rightarrow> ([], Some (''failed to search trigrams: '' @ e))
               | Rows rows final \<Rightarrow>
                   (case trigramRows ops (f64_of_int ops (int (length qts))) rows [] of
                      Inl e \<Rightarrow> ([], Some (''failed to scan row: '' @ e))
                    | Inr results \<Rightarrow> (results, final))))"

text \<open>
  \<^verbatim>\<open>binary.LittleEndian.PutUint32\<close> and \<^verbatim>\<open>binary.LittleEndian.Uint32\<close>.
\<close>

definition le32 :: "32 word \<Rightarrow> blob" where
  "le32 w = [ucast w, ucast (drop_bit 8 w), ucast (drop_bit 16 w), ucast (drop_bit 24 w)]"

definition uint32le :: "blob \<Rightarrow> 32 word" where
  "uint32le b =
     ucast (b ! 0) OR push_bit 8 (ucast (b ! 1)) OR push_bit 16 (ucast (b ! 2)) OR
     push_bit 24 (ucast (b ! 3))"

text \<open>
  \<^verbatim>\<open>float32SliceToBytes\<close> and \<^verbatim>\<open>bytesToFloat32Slice\<close>: four bytes for each number; the reader
  makes \<^verbatim>\<open>len(bytes)/4\<close> numbers and ignores a trailing partial group.
\<close>

definition float32SliceToBytes :: "('s, 'd) fpu \<Rightarrow> 's list \<Rightarrow> blob" where
  "float32SliceToBytes ops floats = concat (map (\<lambda>f. le32 (f32_bits ops f)) floats)"

definition bytesToFloat32Slice :: "('s, 'd) fpu \<Rightarrow> blob \<Rightarrow> 's list" where
  "bytesToFloat32Slice ops bytes =
     map (\<lambda>i. f32_frombits ops (uint32le (drop (i * 4) bytes))) [0..<length bytes div 4]"

text \<open>
  The loop of \<^verbatim>\<open>cosineSimilarity\<close>, which accumulates the dot product and the two squared
  norms in \<^verbatim>\<open>float64\<close>. It is entered only when the lengths are equal, so running over
  \<open>zip a b\<close> is running over the indices of \<open>a\<close>.
\<close>

definition cosineSums :: "('s, 'd) fpu \<Rightarrow> 's list \<Rightarrow> 's list \<Rightarrow> 'd \<times> 'd \<times> 'd" where
  "cosineSums ops a b =
     foldl (\<lambda>(dotProduct, normA, normB) (x, y).
              (f64_add ops dotProduct (f64_mul ops (f64_of_f32 ops x) (f64_of_f32 ops y)),
               f64_add ops normA (f64_mul ops (f64_of_f32 ops x) (f64_of_f32 ops x)),
               f64_add ops normB (f64_mul ops (f64_of_f32 ops y) (f64_of_f32 ops y))))
       (f64_of_int ops 0, f64_of_int ops 0, f64_of_int ops 0) (zip a b)"

text \<open>
  \<^verbatim>\<open>func cosineSimilarity(a, b []float32) float64\<close>.
\<close>

definition cosineSimilarity :: "('s, 'd) fpu \<Rightarrow> 's list \<Rightarrow> 's list \<Rightarrow> 'd" where
  "cosineSimilarity ops a b =
     (if length a \<noteq> length b \<or> length a = 0 then f64_of_int ops 0
      else (case cosineSums ops a b of
              (dotProduct, normA, normB) \<Rightarrow>
                if f64_eq ops normA (f64_of_int ops 0) \<or> f64_eq ops normB (f64_of_int ops 0)
                then f64_of_int ops 0
                else f64_div ops dotProduct (f64_mul ops (f64_sqrt ops normA) (f64_sqrt ops normB))))"

text \<open>
  The \<^verbatim>\<open>for rows.Next()\<close> loop of \<^verbatim>\<open>SearchVectors\<close>.
\<close>

fun vectorRows ::
  "('s, 'd) fpu \<Rightarrow> 's list \<Rightarrow> (error + int \<times> blob \<times> utext) list \<Rightarrow> 'd SearchResult list \<Rightarrow>
   error + 'd SearchResult list" where
  "vectorRows ops queryEmbedding [] scoredDocs = Inr scoredDocs"
| "vectorRows ops queryEmbedding (Inl e # rows) scoredDocs = Inl e"
| "vectorRows ops queryEmbedding (Inr (docID, embeddingBlob, chunk) # rows) scoredDocs =
     vectorRows ops queryEmbedding rows
       (scoredDocs @ [\<lparr>ID = docID,
                        Score = cosineSimilarity ops queryEmbedding
                                  (bytesToFloat32Slice ops embeddingBlob),
                        Snippet = snippetOf chunk\<rparr>])"

text \<open>
  \<^verbatim>\<open>if len(xs) > limit { xs = xs[:limit] }\<close>. With a negative limit the test holds and the
  slice expression panics.
\<close>

definition limitTo :: "'a list \<Rightarrow> int \<Rightarrow> panic + 'a list" where
  "limitTo xs limit =
     (if int (length xs) > limit then
        (if limit < 0 then Inl SliceBoundsOutOfRange else Inr (take (nat limit) xs))
      else Inr xs)"

text \<open>
  \<^verbatim>\<open>func (db *DB) SearchVectors(queryEmbedding []float32, limit int)\<close>. The parameter \<open>srt\<close>
  is the library routine \<^verbatim>\<open>sort.Slice\<close>, which takes the comparison function; the function
  handed to it here is
  \<^verbatim>\<open>func(i, j int) bool { return scoredDocs[i].score > scoredDocs[j].score }\<close>.
  \<^verbatim>\<open>sort.Slice\<close> is not stable, so the order it leaves among equal scores is not fixed by
  the source and the model does not fix it either.
\<close>

definition SearchVectors ::
  "('s, 'd) fpu \<Rightarrow>
   (('d SearchResult \<Rightarrow> 'd SearchResult \<Rightarrow> bool) \<Rightarrow> 'd SearchResult list \<Rightarrow> 'd SearchResult list) \<Rightarrow>
   conn \<Rightarrow> 's list \<Rightarrow> int \<Rightarrow> panic + 'd SearchResult list \<times> error option" where
  "SearchVectors ops srt db queryEmbedding limit =
     (case queryEmbeddings db of
        QueryError e \<Rightarrow> Inr ([], Some (''failed to query embeddings: '' @ e))
      | Rows rows final \<Rightarrow>
          (case vectorRows ops queryEmbedding rows [] of
             Inl e \<Rightarrow> Inr ([], Some (''failed to scan row: '' @ e))
           | Inr scoredDocs \<Rightarrow>
               (case final of
                  Some e \<Rightarrow> Inr ([], Some e)
                | None \<Rightarrow>
                    (case limitTo (srt (\<lambda>a b. f64_gt ops (Score a) (Score b)) scoredDocs) limit of
                       Inl p \<Rightarrow> Inl p
                     | Inr kept \<Rightarrow> Inr (kept, None)))))"

text \<open>
  The summand \<^verbatim>\<open>1.0 / (k + float64(i+1))\<close> with \<^verbatim>\<open>k = 60.0\<close>, for the 0-based index \<open>i\<close>.
\<close>

definition rrfTerm :: "('s, 'd) fpu \<Rightarrow> nat \<Rightarrow> 'd" where
  "rrfTerm ops i =
     f64_div ops (f64_of_int ops 1) (f64_add ops (f64_of_int ops 60) (f64_of_int ops (int i + 1)))"

text \<open>
  \<^verbatim>\<open>scores[id] += x\<close> on a \<^verbatim>\<open>map[int64]float64\<close>, the map being an association list with one
  entry for each key: a missing key reads as the zero value and is then inserted.
\<close>

fun addScore :: "('s, 'd) fpu \<Rightarrow> (int \<times> 'd) list \<Rightarrow> int \<Rightarrow> 'd \<Rightarrow> (int \<times> 'd) list" where
  "addScore ops [] k x = [(k, f64_add ops (f64_of_int ops 0) x)]"
| "addScore ops ((k', v) # scores) k x =
     (if k' = k then (k', f64_add ops v x) # scores else (k', v) # addScore ops scores k x)"

text \<open>
  The two merging loops of \<^verbatim>\<open>HybridSearch\<close>. The first overwrites the snippet of an
  identifier, the second stores a snippet only if there is none yet.
\<close>

fun mergeTrigram ::
  "('s, 'd) fpu \<Rightarrow> nat \<Rightarrow> 'd SearchResult list \<Rightarrow> (int \<times> 'd) list \<times> (int \<rightharpoonup> string) \<Rightarrow>
   (int \<times> 'd) list \<times> (int \<rightharpoonup> string)" where
  "mergeTrigram ops i [] st = st"
| "mergeTrigram ops i (r # rs) (scores, snippets) =
     mergeTrigram ops (i + 1) rs
       (addScore ops scores (ID r) (rrfTerm ops i), snippets(ID r \<mapsto> Snippet r))"

fun mergeVector ::
  "('s, 'd) fpu \<Rightarrow> nat \<Rightarrow> 'd SearchResult list \<Rightarrow> (int \<times> 'd) list \<times> (int \<rightharpoonup> string) \<Rightarrow>
   (int \<times> 'd) list \<times> (int \<rightharpoonup> string)" where
  "mergeVector ops i [] st = st"
| "mergeVector ops i (r # rs) (scores, snippets) =
     mergeVector ops (i + 1) rs
       (addScore ops scores (ID r) (rrfTerm ops i),
        if snippets (ID r) = None then snippets(ID r \<mapsto> Snippet r) else snippets)"

text \<open>
  The rest of \<^verbatim>\<open>HybridSearch\<close>: the score map is turned into a slice by a \<^verbatim>\<open>range\<close> over the
  map, whose order Go leaves unspecified, and sorted with \<^verbatim>\<open>sort.Slice\<close> and the comparison
  \<^verbatim>\<open>func(i, j int) bool { return sorted[i].score > sorted[j].score }\<close>. The two library
  steps together are the parameter \<open>srt\<close>, which is given that comparison.
  \<^verbatim>\<open>snippets[s.id]\<close> reads the empty string for a missing key.
\<close>

definition fuse ::
  "('s, 'd) fpu \<Rightarrow> ((int \<times> 'd \<Rightarrow> int \<times> 'd \<Rightarrow> bool) \<Rightarrow> (int \<times> 'd) list \<Rightarrow> (int \<times> 'd) list) \<Rightarrow>
   'd SearchResult list \<Rightarrow> 'd SearchResult list \<Rightarrow> int \<Rightarrow> panic + 'd SearchResult list" where
  "fuse ops srt trigramResults vectorResults limit =
     (case mergeVector ops 0 vectorResults (mergeTrigram ops 0 trigramResults ([], Map.empty)) of
        (scores, snippets) \<Rightarrow>
          (case limitTo (srt (\<lambda>a b. f64_gt ops (snd a) (snd b)) scores) limit of
             Inl p \<Rightarrow> Inl p
           | Inr ranked \<Rightarrow>
               Inr (map (\<lambda>(i, score).
                          \<lparr>ID = i, Score = score,
                           Snippet = (case snippets i of None \<Rightarrow> [] | Some s \<Rightarrow> s)\<rparr>) ranked)))"

text \<open>
  \<^verbatim>\<open>func (db *DB) HybridSearch(query string, queryEmbedding []float32, limit int)\<close>. The
  \<^verbatim>\<open>nil\<close> embedding is \<open>None\<close>; an empty slice that is not \<^verbatim>\<open>nil\<close> is \<open>Some []\<close> and takes
  the vector path, as in the source.

  The limit is a Go \<^verbatim>\<open>int\<close>, 64 bits wide on the platforms the server is built for, and
  \<^verbatim>\<open>limit*2\<close> is computed in that type: it wraps around from \<open>2 ^ 62\<close> on. The limit is
  therefore a 64-bit word, read as a signed number by \<open>sint\<close>. The functions called take the
  numbers they are given and do no arithmetic on them, so their limits stay integers.
\<close>

definition HybridSearch ::
  "(rune \<Rightarrow> rune) \<Rightarrow> ('s, 'd) fpu \<Rightarrow>
   (('d SearchResult \<Rightarrow> 'd SearchResult \<Rightarrow> bool) \<Rightarrow> 'd SearchResult list \<Rightarrow> 'd SearchResult list) \<Rightarrow>
   ((int \<times> 'd \<Rightarrow> int \<times> 'd \<Rightarrow> bool) \<Rightarrow> (int \<times> 'd) list \<Rightarrow> (int \<times> 'd) list) \<Rightarrow>
   conn \<Rightarrow> utext \<Rightarrow> 's list option \<Rightarrow> 64 word \<Rightarrow>
   panic + 'd SearchResult list \<times> error option" where
  "HybridSearch lower ops vsrt msrt db query queryEmbedding limit =
     (case SearchTrigrams lower ops db query (sint (limit * 2)) of
        (trigramResults, Some e) \<Rightarrow> Inr ([], Some e)
      | (trigramResults, None) \<Rightarrow>
          (case queryEmbedding of
             None \<Rightarrow>
               (case limitTo trigramResults (sint limit) of
                  Inl p \<Rightarrow> Inl p
                | Inr kept \<Rightarrow> Inr (kept, None))
           | Some embedding \<Rightarrow>
               (case SearchVectors ops vsrt db embedding (sint (limit * 2)) of
                  Inl p \<Rightarrow> Inl p
                | Inr (vectorResults, Some e) \<Rightarrow> Inr ([], Some e)
                | Inr (vectorResults, None) \<Rightarrow>
                    (case fuse ops msrt trigramResults vectorResults (sint limit) of
                       Inl p \<Rightarrow> Inl p
                     | Inr results \<Rightarrow> Inr (results, None)))))"

text \<open>
  A database state: the tables \<^verbatim>\<open>documents\<close>, \<^verbatim>\<open>trigrams\<close> and \<^verbatim>\<open>embeddings\<close> of
  \<^verbatim>\<open>schema.sql\<close>, with the columns that the queries read.
\<close>

record store =
  documents :: "Document list"
  trigrams :: "(utext \<times> int) list"
  embeddings :: "(int \<times> blob) list"

text \<open>
  SQLite's \<^verbatim>\<open>LIMIT n\<close>: a negative \<open>n\<close> means no limit.
\<close>

definition sql_limit :: "int \<Rightarrow> 'a list \<Rightarrow> 'a list" where
  "sql_limit n rows = (if n < 0 then rows else take (nat n) rows)"

text \<open>
  The rows of the trigram query before ordering and limit: one row for each document that
  has at least one posting with a trigram of the list, with the number of distinct matched
  trigrams. Document identifiers are the primary key of \<^verbatim>\<open>documents\<close>, so grouping by
  \<^verbatim>\<open>d.id\<close> is one group for each document.
\<close>

definition trigramGroups :: "store \<Rightarrow> utext list \<Rightarrow> (int \<times> utext \<times> int) list" where
  "trigramGroups st qts =
     concat (map (\<lambda>d.
        (let matched = [t. (t, doc_id) \<leftarrow> trigrams st, doc_id = Document.ID d, t \<in> set qts]
         in if matched = [] then []
            else [(Document.ID d, Chunk d, int (card (set matched)))])) (documents st))"

text \<open>
  The rows of \<^verbatim>\<open>SELECT e.doc_id, e.embedding, d.chunk FROM embeddings e JOIN documents d\<close>.
\<close>

definition embeddingJoin :: "store \<Rightarrow> (int \<times> blob \<times> utext) list" where
  "embeddingJoin st =
     [(doc_id, embedding, Chunk d). (doc_id, embedding) \<leftarrow> embeddings st, d \<leftarrow> documents st,
        Document.ID d = doc_id]"

text \<open>
  A connection to a store on which queries do not fail. \<open>ord\<close> is the step of the engine
  that puts the groups of the trigram query in order. What does not depend on the order is
  stated for every \<open>ord\<close>; what the statement's \<^verbatim>\<open>ORDER BY\<close> clause prescribes is
  \<open>orderByMatchCountDesc\<close> below.
\<close>

definition sqlite ::
  "((int \<times> utext \<times> int) list \<Rightarrow> (int \<times> utext \<times> int) list) \<Rightarrow> store \<Rightarrow> conn" where
  "sqlite ord st =
     \<lparr>queryTrigrams = (\<lambda>qts limit. Rows (map Inr (sql_limit limit (ord (trigramGroups st qts)))) None),
      queryEmbeddings = Rows (map Inr (embeddingJoin st)) None,
      queryDocument = (\<lambda>i. case find (\<lambda>d. Document.ID d = i) (documents st) of
                               None \<Rightarrow> ErrNoRows | Some d \<Rightarrow> Scanned d)\<rparr>"

text \<open>
  The clause \<^verbatim>\<open>ORDER BY match_count DESC\<close> of the statement that \<^verbatim>\<open>SearchTrigrams\<close> sends: the
  rows are sorted by decreasing count. The statement names no second key and the Go code
  keeps the rows as they come, so the order among rows of equal count is the one the
  database engine produces. The engine is a library outside this repository; its rule is
  the parameter \<open>tie\<close>, which gives every document of a result set a rank: rows of equal
  count come by increasing rank, and rows of equal count and rank in table order. Every
  order of the rows that is sorted by decreasing count arises from some \<open>tie\<close>, because
  document identifiers are the primary key; \<open>byAscendingId\<close> is the rule that breaks ties
  by ascending identifier.
\<close>

definition orderByMatchCountDesc ::
  "((int \<times> utext \<times> int) list \<Rightarrow> int \<Rightarrow> int) \<Rightarrow> (int \<times> utext \<times> int) list \<Rightarrow>
   (int \<times> utext \<times> int) list" where
  "orderByMatchCountDesc tie rows =
     sort_key (\<lambda>r. - snd (snd r)) (sort_key (\<lambda>r. tie rows (fst r)) rows)"

definition byAscendingId :: "(int \<times> utext \<times> int) list \<Rightarrow> int \<Rightarrow> int" where
  "byAscendingId rows i = i"

text \<open>
  The order with the constant rule, as a function of the rows: equal counts stay in table
  order.
\<close>

definition countDescStable :: "(int \<times> utext \<times> int) list \<Rightarrow> (int \<times> utext \<times> int) list" where
  "countDescStable rows = sort_key (\<lambda>r. - snd (snd r)) rows"

text \<open>
  The squared norm as \<^verbatim>\<open>cosineSimilarity\<close> accumulates it.
\<close>

definition sumSquares :: "('s, 'd) fpu \<Rightarrow> 's list \<Rightarrow> 'd" where
  "sumSquares ops a =
     foldl (\<lambda>n x. f64_add ops n (f64_mul ops (f64_of_f32 ops x) (f64_of_f32 ops x)))
       (f64_of_int ops 0) a"

text \<open>
  \<^verbatim>\<open>for i, r := range text\<close> of \<^verbatim>\<open>stubEmbedding\<close>: \<open>i\<close> is the byte offset of the code point
  \<open>r\<close>, so it advances by the length of the encoding of \<open>r\<close>. The index
  \<open>(r + i) mod 384\<close> is in range because both summands are natural numbers.
\<close>

fun stubLoop :: "('s, 'd) fpu \<Rightarrow> nat \<Rightarrow> utext \<Rightarrow> 's list \<Rightarrow> 's list" where
  "stubLoop ops i [] embedding = embedding"
| "stubLoop ops i (r # rs) embedding =
     (let idx = (r + i) mod 384
      in stubLoop ops (i + RuneLen r) rs
           (embedding[idx := f32_add ops (embedding ! idx)
                                (f32_div ops (f32_of_int ops (int r)) (f32_of_int ops 1000))]))"

text \<open>
  \<^verbatim>\<open>func stubEmbedding(text string) []float32\<close>.
\<close>

definition stubEmbedding :: "(rune \<Rightarrow> rune) \<Rightarrow> ('s, 'd) fpu \<Rightarrow> utext \<Rightarrow> 's list" where
  "stubEmbedding lower ops text0 =
     (let embedding = stubLoop ops 0 (ToLower lower text0) (replicate 384 (f32_of_int ops 0));
          norm = foldl (\<lambda>n v. f32_add ops n (f32_mul ops v v)) (f32_of_int ops 0) embedding
      in if f32_gt ops norm (f32_of_int ops 0) then
           (let norm' = f32_of_f64 ops (f64_div ops (f64_of_int ops 1) (f64_of_f32 ops norm))
            in map (\<lambda>v. f32_mul ops v norm') embedding)
         else embedding)"

text \<open>
  The tool result of the server: \<^verbatim>\<open>writeToolResult\<close> and \<^verbatim>\<open>writeToolError\<close> wrap a text in
  one content item and differ in the \<^verbatim>\<open>IsError\<close> flag.
\<close>

record MCPContent =
  Type :: string
  Text :: string

record MCPCallToolResult =
  Content :: "MCPContent list"
  IsError :: bool

definition writeToolResult :: "string \<Rightarrow> MCPCallToolResult" where
  "writeToolResult txt = \<lparr>Content = [\<lparr>Type = ''text'', Text = txt\<rparr>], IsError = False\<rparr>"

definition writeToolError :: "string \<Rightarrow> MCPCallToolResult" where
  "writeToolError message = \<lparr>Content = [\<lparr>Type = ''text'', Text = message\<rparr>], IsError = True\<rparr>"

text \<open>
  \<^verbatim>\<open>func (s *Server) handleGetTool\<close>, as a function from the decoded arguments (or the
  decoding error) to the tool result written to the client. \<open>marshal\<close> is
  \<^verbatim>\<open>json.Marshal\<close> on the map built from the document.
\<close>

definition handleGetTool ::
  "(Document \<Rightarrow> error + string) \<Rightarrow> conn \<Rightarrow> error + int \<Rightarrow> MCPCallToolResult" where
  "handleGetTool marshal db args =
     (case args of
        Inl e \<Rightarrow> writeToolError (''Invalid arguments: '' @ e)
      | Inr i \<Rightarrow>
          if i \<le> 0 then writeToolError ''Valid document ID is required''
          else (case GetDocument db i of
                  (doc, Some e) \<Rightarrow> writeToolError (''Failed to get document: '' @ e)
                | (None, None) \<Rightarrow> writeToolError ''Document not found''
                | (Some doc, None) \<Rightarrow>
                    (case marshal doc of
                       Inl e \<Rightarrow> writeToolError (''Failed to marshal result: '' @ e)
                     | Inr js \<Rightarrow> writeToolResult js)))"

text \<open>
  Example stores.
\<close>

definition emptyStore :: store where
  "emptyStore = \<lparr>documents = [], trigrams = [], embeddings = []\<rparr>"

text \<open>
  A chunk of 101 characters: the letter \<^verbatim>\<open>a\<close> and then 100 times U+00E9, which takes two
  bytes in UTF-8.
\<close>

definition accented :: utext where
  "accented = 97 # replicate 100 233"

text \<open>
  A store of three chunks with their postings, and with embeddings of two dimensions whose
  components are the numbers 3, 4 / 4, 3 / 0, 5 in the encoding of \<open>exact_fpu\<close>.
\<close>

definition miniStore :: store where
  "miniStore =
     \<lparr>documents =
        [\<lparr>Document.ID = 1, Chunk = runes_of ''abcd'', ChunkIndex = 0\<rparr>,
         \<lparr>Document.ID = 2, Chunk = runes_of ''bcde'', ChunkIndex = 1\<rparr>,
         \<lparr>Document.ID = 3, Chunk = runes_of ''zzzz'', ChunkIndex = 2\<rparr>],
      trigrams =
        [(runes_of ''abc'', 1), (runes_of ''bcd'', 1), (runes_of ''bcd'', 2),
         (runes_of ''cde'', 2), (runes_of ''zzz'', 3)],
      embeddings =
        [(1, [3, 0, 0, 0, 4, 0, 0, 0]), (2, [4, 0, 0, 0, 3, 0, 0, 0]),
         (3, [0, 0, 0, 0, 5, 0, 0, 0])]\<rparr>"

text \<open>
  The search result that \<^verbatim>\<open>SearchTrigrams\<close> makes of one row, for a query of \<open>n\<close> trigrams.
\<close>

definition lexResult :: "('s, 'd) fpu \<Rightarrow> nat \<Rightarrow> int \<times> utext \<times> int \<Rightarrow> 'd SearchResult" where
  "lexResult ops n row =
     (case row of (i, chunk, matchCount) \<Rightarrow>
        \<lparr>ID = i, Score = f64_div ops (f64_of_int ops matchCount) (f64_of_int ops (int n)),
         Snippet = snippetOf chunk\<rparr>)"

section \<open>Lexical ranking on a store\<close>

text \<open>
  Stated on the tables: the number of distinct trigrams of the query that document \<open>i\<close> is
  indexed under.
\<close>

definition matchCount :: "store \<Rightarrow> utext list \<Rightarrow> int \<Rightarrow> int" where
  "matchCount st qts i = int (card {t \<in> set qts. (t, i) \<in> set (trigrams st)})"



section \<open>Reciprocal rank fusion\<close>

text \<open>
  The score map after one merging loop, without the snippets.
\<close>

fun scoresAfter ::
  "('s, 'd) fpu \<Rightarrow> nat \<Rightarrow> 'd SearchResult list \<Rightarrow> (int \<times> 'd) list \<Rightarrow> (int \<times> 'd) list" where
  "scoresAfter ops i [] scores = scores"
| "scoresAfter ops i (r # rs) scores =
     scoresAfter ops (i + 1) rs (addScore ops scores (ID r) (rrfTerm ops i))"

text \<open>
  The summands that a loop started at index \<open>i\<close> adds to the score of identifier \<open>k\<close>, in
  the order in which it adds them.
\<close>

fun termsOf :: "('s, 'd) fpu \<Rightarrow> nat \<Rightarrow> 'd SearchResult list \<Rightarrow> int \<Rightarrow> 'd list" where
  "termsOf ops i [] k = []"
| "termsOf ops i (r # rs) k = (if ID r = k then [rrfTerm ops i] else []) @ termsOf ops (i + 1) rs k"

text \<open>
  \<^verbatim>\<open>scores[k]\<close>: the zero value for a missing key.
\<close>

definition valOf :: "('s, 'd) fpu \<Rightarrow> (int \<times> 'd) list \<Rightarrow> int \<Rightarrow> 'd" where
  "valOf ops scores k = (case map_of scores k of None \<Rightarrow> f64_of_int ops 0 | Some v \<Rightarrow> v)"

text \<open>
  Reciprocal rank fusion stated on the two result lists. The rank of an identifier in a
  list is its 1-based position; it contributes \<^verbatim>\<open>1/(60 + rank)\<close> for each list that holds
  it, the lexical list first, and the score is the sum of the contributions in that order,
  started from zero as the source does (floating-point addition is not associative).
\<close>

definition rankOf :: "'d SearchResult list \<Rightarrow> int \<Rightarrow> nat" where
  "rankOf rs k = Suc (length (takeWhile (\<lambda>r. ID r \<noteq> k) rs))"

definition rrfPartials :: "('s, 'd) fpu \<Rightarrow> 'd SearchResult list \<Rightarrow> int \<Rightarrow> 'd list" where
  "rrfPartials ops rs k =
     (if k \<in> ID ` set rs
      then [f64_div ops (f64_of_int ops 1)
              (f64_add ops (f64_of_int ops 60) (f64_of_int ops (int (rankOf rs k))))]
      else [])"

definition rrfScore :: "('s, 'd) fpu \<Rightarrow> 'd SearchResult list \<Rightarrow> 'd SearchResult list \<Rightarrow> int \<Rightarrow> 'd" where
  "rrfScore ops lexical vectors k =
     foldl (f64_add ops) (f64_of_int ops 0) (rrfPartials ops lexical k @ rrfPartials ops vectors k)"

text \<open>
  What \<^verbatim>\<open>sort.Slice\<close> guarantees when it is given the comparison by decreasing score of
  the fusion, applied to the slice made from the score map: the same entries, and no entry
  placed before one that the comparison puts first, that is, before one of strictly greater
  score.
\<close>

definition sortsByScoreDesc ::
  "('s, 'd) fpu \<Rightarrow> ((int \<times> 'd \<Rightarrow> int \<times> 'd \<Rightarrow> bool) \<Rightarrow> (int \<times> 'd) list \<Rightarrow> (int \<times> 'd) list) \<Rightarrow> bool" where
  "sortsByScoreDesc ops srt \<longleftrightarrow>
     (\<forall>xs. mset (srt (\<lambda>a b. f64_gt ops (snd a) (snd b)) xs) = mset xs \<and>
        sorted_wrt (\<lambda>a b. \<not> f64_gt ops (snd b) (snd a)) (srt (\<lambda>a b. f64_gt ops (snd a) (snd b)) xs))"

text \<open>
  A sorting routine driven by the comparison function alone: insertion sort, which puts
  each element before the first one that the comparison places after it.
\<close>

fun insertLess :: "('a \<Rightarrow> 'a \<Rightarrow> bool) \<Rightarrow> 'a \<Rightarrow> 'a list \<Rightarrow> 'a list" where
  "insertLess cmp x [] = [x]"
| "insertLess cmp x (y # ys) = (if cmp x y then x # y # ys else y # insertLess cmp x ys)"

definition insertionSort :: "('a \<Rightarrow> 'a \<Rightarrow> bool) \<Rightarrow> 'a list \<Rightarrow> 'a list" where
  "insertionSort cmp xs = foldl (\<lambda>acc x. insertLess cmp x acc) [] xs"

section \<open>Properties of the text and the trigram indexer\<close>

lemma RuneLen_pos: "1 \<le> RuneLen r"
  by (simp add: RuneLen_def)

lemma length_le_byteLen: "length s \<le> byteLen s"
proof (induction s)
  case Nil
  then show ?case by (simp add: byteLen_def)
next
  case (Cons r s)
  have "1 \<le> RuneLen r" by (rule RuneLen_pos)
  with Cons show ?case by (simp add: byteLen_def)
qed

lemma length_TrimSpace_le: "length (TrimSpace s) \<le> length s"
proof -
  have "length (dropWhile IsSpace (rev (dropWhile IsSpace s))) \<le> length (rev (dropWhile IsSpace s))"
    by (rule length_dropWhile_le)
  also have "\<dots> \<le> length s"
    by (simp add: length_dropWhile_le)
  finally show ?thesis by (simp add: TrimSpace_def)
qed

lemma windowsFrom_done: "\<not> int i \<le> int (length s) - 3 \<Longrightarrow> windowsFrom s i = {}"
  by (auto simp: windowsFrom_def)

lemma windowsFrom_step:
  assumes "int i \<le> int (length s) - 3"
  shows "windowsFrom s i = insert (take 3 (drop i s)) (windowsFrom s (i + 1))"
proof -
  have "\<And>j. (i \<le> j \<and> j + 3 \<le> length s) \<longleftrightarrow> (j = i \<or> (i + 1 \<le> j \<and> j + 3 \<le> length s))"
    using assms by auto
  then show ?thesis
    unfolding windowsFrom_def by auto
qed

lemma trigramLoop_inv:
  "seen = set acc \<Longrightarrow> distinct acc \<Longrightarrow>
   distinct (trigramLoop s i seen acc) \<and>
   set (trigramLoop s i seen acc) = set acc \<union> windowsFrom s i"
proof (induction s i seen acc rule: trigramLoop.induct)
  case (1 runes i seen trigrams)
  show ?case
  proof (cases "int i \<le> int (length runes) - 3")
    case False
    then show ?thesis
      using "1.prems" by (simp add: trigramLoop.simps [of runes i] windowsFrom_done)
  next
    case True
    let ?t = "take 3 (drop i runes)"
    show ?thesis
    proof (cases "?t \<in> seen")
      case True
      have "distinct (trigramLoop runes (i + 1) seen trigrams) \<and>
            set (trigramLoop runes (i + 1) seen trigrams) = set trigrams \<union> windowsFrom runes (i + 1)"
        using "1.IH"(1) [OF \<open>int i \<le> int (length runes) - 3\<close> refl True] "1.prems" by simp
      moreover have "trigramLoop runes i seen trigrams = trigramLoop runes (i + 1) seen trigrams"
        using True \<open>int i \<le> int (length runes) - 3\<close> by (simp add: trigramLoop.simps [of runes i] Let_def)
      ultimately show ?thesis
        using True "1.prems" windowsFrom_step [OF \<open>int i \<le> int (length runes) - 3\<close>] by auto
    next
      case False
      have "distinct (trigramLoop runes (i + 1) (insert ?t seen) (trigrams @ [?t])) \<and>
            set (trigramLoop runes (i + 1) (insert ?t seen) (trigrams @ [?t])) =
              set (trigrams @ [?t]) \<union> windowsFrom runes (i + 1)"
        using "1.IH"(2) [OF \<open>int i \<le> int (length runes) - 3\<close> refl False] "1.prems" False by simp
      moreover have "trigramLoop runes i seen trigrams =
          trigramLoop runes (i + 1) (insert ?t seen) (trigrams @ [?t])"
        using False \<open>int i \<le> int (length runes) - 3\<close> by (simp add: trigramLoop.simps [of runes i] Let_def)
      ultimately show ?thesis
        using windowsFrom_step [OF \<open>int i \<le> int (length runes) - 3\<close>] by auto
    qed
  qed
qed

lemma windowsFrom_length: "t \<in> windowsFrom s i \<Longrightarrow> length t = 3"
  by (auto simp: windowsFrom_def)

lemma GenerateTrigrams_set:
  "set (GenerateTrigrams lower T) = windowsFrom (TrimSpace (ToLower lower T)) 0"
proof (cases "byteLen (TrimSpace (ToLower lower T)) < 3")
  case True
  then have "length (TrimSpace (ToLower lower T)) < 3"
    using length_le_byteLen [of "TrimSpace (ToLower lower T)"] by simp
  then have "windowsFrom (TrimSpace (ToLower lower T)) 0 = {}"
    by (auto simp: windowsFrom_def)
  with True show ?thesis by (simp add: GenerateTrigrams_def)
next
  case False
  then show ?thesis
    using trigramLoop_inv [of "{}" "[]" "TrimSpace (ToLower lower T)" 0]
    by (simp add: GenerateTrigrams_def Let_def)
qed

lemma GenerateTrigrams_distinct: "distinct (GenerateTrigrams lower T)"
  using trigramLoop_inv [of "{}" "[]" "TrimSpace (ToLower lower T)" 0]
  by (simp add: GenerateTrigrams_def Let_def)

text \<open>
  Claim C5. The trigrams of a text hold no entry twice and every entry has exactly three
  code points; a text of fewer than three code points has no trigram; the entries are
  exactly the windows of three consecutive code points (not bytes) of the lower-cased,
  trimmed text, so a multi-byte character counts as one unit.
\<close>

theorem GenerateTrigrams_spec:
  "distinct (GenerateTrigrams lower T) \<and>
   (\<forall>t \<in> set (GenerateTrigrams lower T). length t = 3) \<and>
   (length T < 3 \<longrightarrow> GenerateTrigrams lower T = []) \<and>
   set (GenerateTrigrams lower T) =
     {take 3 (drop j (TrimSpace (ToLower lower T))) | j. j + 3 \<le> length (TrimSpace (ToLower lower T))}"
proof (intro conjI)
  show "distinct (GenerateTrigrams lower T)"
    by (rule GenerateTrigrams_distinct)
  show "\<forall>t \<in> set (GenerateTrigrams lower T). length t = 3"
    by (simp add: GenerateTrigrams_set windowsFrom_length)
  show "length T < 3 \<longrightarrow> GenerateTrigrams lower T = []"
  proof
    assume "length T < 3"
    then have "length (TrimSpace (ToLower lower T)) < 3"
      using length_TrimSpace_le [of "ToLower lower T"] by (simp add: ToLower_def)
    then have "windowsFrom (TrimSpace (ToLower lower T)) 0 = {}"
      by (auto simp: windowsFrom_def)
    then show "GenerateTrigrams lower T = []"
      using GenerateTrigrams_set [of lower T] by simp
  qed
  show "set (GenerateTrigrams lower T) =
     {take 3 (drop j (TrimSpace (ToLower lower T))) | j. j + 3 \<le> length (TrimSpace (ToLower lower T))}"
    by (simp add: GenerateTrigrams_set windowsFrom_def)
qed

text \<open>
  The theorem at the text H, U+00E9, U+00E9 (three code points in five bytes: one
  trigram) and at U+00E9, a (two code points in three bytes: no trigram).
\<close>

theorem GenerateTrigrams_spec_witness:
  "distinct (GenerateTrigrams asciiLower [72, 233, 233]) \<and>
   GenerateTrigrams asciiLower [72, 233, 233] = [[104, 233, 233]] \<and>
   length [233, 97 :: nat] < 3 \<and> byteLen [233, 97] = 3 \<and>
   GenerateTrigrams asciiLower [233, 97] = []"
  using GenerateTrigrams_spec [of asciiLower "[72, 233, 233]"]
    GenerateTrigrams_spec [of asciiLower "[233, 97]"]
  by (simp add: GenerateTrigrams_def ToLower_def TrimSpace_def IsSpace_def asciiLower_def
      byteLen_def RuneLen_def trigramLoop.simps)

section \<open>Properties of the chunker\<close>

lemma byteLen_pos_iff: "0 < byteLen s \<longleftrightarrow> s \<noteq> []"
proof (cases s)
  case Nil
  then show ?thesis by (simp add: byteLen_def)
next
  case (Cons r rs)
  have "1 \<le> RuneLen r" by (rule RuneLen_pos)
  then show ?thesis using Cons by (simp add: byteLen_def)
qed

lemma in_dropWhile: "x \<in> set s \<Longrightarrow> \<not> P x \<Longrightarrow> x \<in> set (dropWhile P s)"
  by (induction s) auto

lemma TrimSpace_keeps: "x \<in> set s \<Longrightarrow> \<not> IsSpace x \<Longrightarrow> x \<in> set (TrimSpace s)"
  by (simp add: TrimSpace_def in_dropWhile)

lemma TrimSpace_nonspace:
  assumes "TrimSpace s \<noteq> []"
  shows "\<exists>x \<in> set (TrimSpace s). \<not> IsSpace x"
proof -
  let ?d = "dropWhile IsSpace (rev (dropWhile IsSpace s))"
  from assms have ne: "?d \<noteq> []" by (simp add: TrimSpace_def)
  then have "\<not> IsSpace (hd ?d)" by (rule hd_dropWhile)
  moreover from ne have "hd ?d \<in> set ?d" by simp
  ultimately show ?thesis by (auto simp: TrimSpace_def)
qed

lemma ReplaceCRLF_keeps: "x \<in> set s \<Longrightarrow> x \<noteq> 13 \<Longrightarrow> x \<in> set (ReplaceCRLF s)"
  by (induction s rule: ReplaceCRLF.induct) auto

lemma go_quot_2: "0 \<le> n \<Longrightarrow> go_quot n 2 = n div 2"
  by (cases "n = 0") (simp_all add: go_quot_def sgn_if)

lemma scanBack_range:
  "0 \<le> lo \<Longrightarrow> i < int (length runes) \<Longrightarrow>
   \<exists>r. scanBack p runes i lo = Inr r \<and> (\<forall>j. r = Some j \<longrightarrow> lo < j \<and> j \<le> i)"
proof (induction p runes i lo rule: scanBack.induct)
  case (1 p runes i lo)
  show ?case
  proof (cases "i > lo")
    case False
    then show ?thesis by (simp add: scanBack.simps [of p runes i lo])
  next
    case True
    with "1.prems" have inb: "\<not> (i < 0 \<or> int (length runes) \<le> i)" by simp
    show ?thesis
    proof (cases "p (runes ! nat i)")
      case True
      with \<open>i > lo\<close> inb show ?thesis by (simp add: scanBack.simps [of p runes i lo])
    next
      case False
      have "\<exists>r. scanBack p runes (i - 1) lo = Inr r \<and> (\<forall>j. r = Some j \<longrightarrow> lo < j \<and> j \<le> i - 1)"
        using "1.IH" [OF \<open>i > lo\<close> inb False] "1.prems" by simp
      then obtain r where r: "scanBack p runes (i - 1) lo = Inr r"
        and rj: "\<forall>j. r = Some j \<longrightarrow> lo < j \<and> j \<le> i - 1" by blast
      have "scanBack p runes i lo = Inr r"
        using \<open>i > lo\<close> inb False r by (simp add: scanBack.simps [of p runes i lo])
      with rj show ?thesis by auto
    qed
  qed
qed

lemma windowEnd_bounds:
  assumes size: "0 < ChunkSize cfg" and st: "0 \<le> start" "start < int (length runes)"
  shows "\<exists>fin. windowEnd cfg runes start = Inr fin \<and> fin \<le> int (length runes) \<and>
           start < fin \<and> (fin = int (length runes) \<or> start + ChunkSize cfg div 2 < fin)"
proof -
  let ?n = "int (length runes)"
  let ?lo = "start + ChunkSize cfg div 2"
  have q: "go_quot (ChunkSize cfg) 2 = ChunkSize cfg div 2"
    using size by (simp add: go_quot_2)
  have lo0: "0 \<le> ?lo" using size st by simp
  have half: "ChunkSize cfg div 2 < ChunkSize cfg" using size by simp
  have h0: "0 \<le> ChunkSize cfg div 2" using size by simp
  show ?thesis
  proof (cases "start + ChunkSize cfg < ?n")
    case False
    then have "windowEnd cfg runes start = Inr ?n"
      by (auto simp: windowEnd_def Let_def)
    then show ?thesis using st by simp
  next
    case True
    let ?e1 = "start + ChunkSize cfg"
    obtain r where r: "scanBack isSentenceEnd runes ?e1 ?lo = Inr r"
      and rj: "\<forall>j. r = Some j \<longrightarrow> ?lo < j \<and> j \<le> ?e1"
      using scanBack_range [OF lo0 True] by blast
    define e2 where "e2 = (case r of Some i \<Rightarrow> i + 1 | None \<Rightarrow> ?e1)"
    have e2: "?lo < e2 \<and> e2 \<le> ?n"
      using rj True half by (cases r) (auto simp: e2_def)
    have st_e2: "start < e2" using e2 h0 by linarith
    show ?thesis
    proof (cases "e2 = ?e1 \<and> e2 < ?n")
      case False
      then have "windowEnd cfg runes start = Inr e2"
        using True r by (auto simp: windowEnd_def Let_def q e2_def)
      with e2 st_e2 show ?thesis by simp
    next
      case c: True
      have e2eq: "(case r of Some i \<Rightarrow> i + 1 | None \<Rightarrow> ?e1) = ?e1"
        using c by (simp add: e2_def)
      obtain r' where r': "scanBack isBlank runes ?e1 ?lo = Inr r'"
        and rj': "\<forall>j. r' = Some j \<longrightarrow> ?lo < j \<and> j \<le> ?e1"
        using scanBack_range [OF lo0 True] by blast
      let ?f = "case r' of Some i \<Rightarrow> i | None \<Rightarrow> ?e1"
      have "windowEnd cfg runes start = Inr ?f"
        using True r r' e2eq by (cases r') (simp_all add: windowEnd_def Let_def q)
      moreover have b: "?lo < ?f \<and> ?f \<le> ?n"
        using rj' True half by (cases r') auto
      moreover have "start < ?f"
        using b h0 by linarith
      ultimately show ?thesis by simp
    qed
  qed
qed

lemma covered_mono: "covered runes xs i \<Longrightarrow> set xs \<subseteq> set ys \<Longrightarrow> covered runes ys i"
  unfolding covered_def by blast

lemma sliceRunes_ok:
  "0 \<le> lo \<Longrightarrow> lo \<le> hi \<Longrightarrow> hi \<le> int (length runes) \<Longrightarrow>
   sliceRunes runes lo hi = Inr (take (nat (hi - lo)) (drop (nat lo) runes))"
  by (simp add: sliceRunes_def)

lemma window_covers:
  assumes "0 \<le> start" "nat start \<le> i" "int i < fin" "fin \<le> int (length runes)"
    and ns: "\<not> IsSpace (runes ! i)"
  shows "covered runes [TrimSpace (take (nat (fin - start)) (drop (nat start) runes))] i"
proof -
  let ?piece = "take (nat (fin - start)) (drop (nat start) runes)"
  have len: "i - nat start < length ?piece" using assms by auto
  have "?piece ! (i - nat start) = runes ! i" using assms by auto
  with len have "runes ! i \<in> set ?piece" by (metis nth_mem)
  then have in_c: "runes ! i \<in> set (TrimSpace ?piece)" using ns by (rule TrimSpace_keeps)
  have lo: "nat start \<in> {0..i}" using assms by simp
  have hi: "nat fin \<in> {i + 1..length runes}" using assms by auto
  have eq: "nat fin - nat start = nat (fin - start)" using assms by auto
  have "\<exists>lo \<in> {0..i}. \<exists>hi \<in> {i + 1..length runes}.
      TrimSpace ?piece = TrimSpace (take (hi - lo) (drop lo runes)) \<and>
      runes ! i \<in> set (TrimSpace ?piece)"
    using lo hi eq in_c by (intro bexI [of _ "nat start"] bexI [of _ "nat fin"]) simp_all
  then show ?thesis
    unfolding covered_def by simp
qed

lemma chunkLoop_partial:
  assumes run: "chunkLoop cfg0 runes0 start0 chunks0 = Some y0"
  shows "0 \<le> ChunkOverlap cfg0 \<and> ChunkOverlap cfg0 < ChunkSize cfg0 \<and> 0 \<le> start0 \<longrightarrow>
   (\<exists>more. y0 = Inr (chunks0 @ more) \<and> [] \<notin> set more \<and>
     (\<forall>i. nat start0 \<le> i \<and> i < length runes0 \<and> \<not> IsSpace (runes0 ! i) \<longrightarrow>
        covered runes0 more i))"
proof (rule chunkLoop.raw_induct [where P = "\<lambda>cfg runes start chunks y.
    0 \<le> ChunkOverlap cfg \<and> ChunkOverlap cfg < ChunkSize cfg \<and> 0 \<le> start \<longrightarrow>
    (\<exists>more. y = Inr (chunks @ more) \<and> [] \<notin> set more \<and>
      (\<forall>i. nat start \<le> i \<and> i < length runes \<and> \<not> IsSpace (runes ! i) \<longrightarrow>
         covered runes more i))", rotated, OF run], goal_cases)
  case (1 f cfg runes start chunks y)
  let ?n = "int (length runes)"
  show ?case
  proof (intro impI, elim conjE)
  assume pre: "0 \<le> ChunkOverlap cfg" "ChunkOverlap cfg < ChunkSize cfg" "0 \<le> start"
  show "\<exists>more. y = Inr (chunks @ more) \<and> [] \<notin> set more \<and>
      (\<forall>i. nat start \<le> i \<and> i < length runes \<and> \<not> IsSpace (runes ! i) \<longrightarrow>
         covered runes more i)"
  proof (cases "start < ?n")
    case False
    with "1"(2) have "y = Inr chunks" by auto
    moreover have "\<forall>i. \<not> (nat start \<le> i \<and> i < length runes)" using False by auto
    ultimately show ?thesis by auto
  next
    case True
    have size: "0 < ChunkSize cfg" using pre by simp
    obtain fin where we: "windowEnd cfg runes start = Inr fin" and fn: "fin \<le> ?n"
      and sf: "start < fin"
      using windowEnd_bounds [OF size \<open>0 \<le> start\<close> True] by blast
    let ?piece = "take (nat (fin - start)) (drop (nat start) runes)"
    let ?chunk = "TrimSpace ?piece"
    let ?new = "if 0 < byteLen ?chunk then [?chunk] else []"
    let ?start' = "if fin - ChunkOverlap cfg < 0 then 0 else fin - ChunkOverlap cfg"
    have sl: "sliceRunes runes start fin = Inr ?piece"
      using \<open>0 \<le> start\<close> sf fn by (simp add: sliceRunes_ok)
    have new_ne: "[] \<notin> set ?new" by (simp add: byteLen_pos_iff)
    have cov_here: "covered runes ?new i"
      if "nat start \<le> i" "int i < fin" "\<not> IsSpace (runes ! i)" for i
    proof -
      have c: "covered runes [?chunk] i"
        using window_covers [OF \<open>0 \<le> start\<close> that(1) that(2) fn that(3)] .
      then have "?chunk \<noteq> []" unfolding covered_def by auto
      then show ?thesis using c by (simp add: byteLen_pos_iff)
    qed
    show ?thesis
    proof (cases "fin \<ge> ?n")
      case True
      have "y = Inr (chunks @ ?new)"
        using "1"(2) \<open>start < ?n\<close> we sl True by (auto simp: Let_def)
      moreover have "\<forall>i. nat start \<le> i \<and> i < length runes \<and> \<not> IsSpace (runes ! i) \<longrightarrow>
          covered runes ?new i"
        using cov_here True by auto
      ultimately show ?thesis using new_ne by blast
    next
      case False
      have rec: "f cfg runes ?start' (chunks @ ?new) = Some y"
        using "1"(2) \<open>start < ?n\<close> we sl False by (auto simp: Let_def split: if_splits)
      have "0 \<le> ?start'" by simp
      with "1"(1) [OF rec] pre
      obtain more where y: "y = Inr ((chunks @ ?new) @ more)" and ne: "[] \<notin> set more"
        and cov: "\<forall>i. nat ?start' \<le> i \<and> i < length runes \<and> \<not> IsSpace (runes ! i) \<longrightarrow>
          covered runes more i" by blast
      have le: "?start' \<le> fin" using pre sf by auto
      have "covered runes (?new @ more) i"
        if i: "nat start \<le> i" "i < length runes" "\<not> IsSpace (runes ! i)" for i
      proof (cases "int i < fin")
        case True
        then have "covered runes ?new i" using cov_here i by blast
        then show ?thesis by (rule covered_mono) auto
      next
        case False
        then have "nat ?start' \<le> i" using le by linarith
        then have "covered runes more i" using cov i by blast
        then show ?thesis by (rule covered_mono) auto
      qed
      moreover have "[] \<notin> set (?new @ more)" using new_ne ne by auto
      moreover have "y = Inr (chunks @ (?new @ more))" using y by simp
      ultimately show ?thesis by blast
    qed
  qed
  qed
qed

lemma chunkLoop_terminates:
  assumes ov: "0 \<le> ChunkOverlap cfg" "2 * ChunkOverlap cfg \<le> ChunkSize cfg"
    and size: "0 < ChunkSize cfg"
  shows "0 \<le> start \<Longrightarrow> \<exists>y. chunkLoop cfg runes start chunks = Some y"
proof (induction "nat (int (length runes) - start)" arbitrary: start chunks rule: less_induct)
  case less
  let ?n = "int (length runes)"
  show ?case
  proof (cases "start < ?n")
    case False
    then show ?thesis by (subst chunkLoop.simps) simp
  next
    case True
    obtain fin where we: "windowEnd cfg runes start = Inr fin" and fn: "fin \<le> ?n"
      and sf: "start < fin" and half: "fin = ?n \<or> start + ChunkSize cfg div 2 < fin"
      using windowEnd_bounds [OF size \<open>0 \<le> start\<close> True] by blast
    let ?piece = "take (nat (fin - start)) (drop (nat start) runes)"
    let ?chunks' = "if 0 < byteLen (TrimSpace ?piece) then chunks @ [TrimSpace ?piece] else chunks"
    let ?start' = "if fin - ChunkOverlap cfg < 0 then 0 else fin - ChunkOverlap cfg"
    have sl: "sliceRunes runes start fin = Inr ?piece"
      using \<open>0 \<le> start\<close> sf fn by (simp add: sliceRunes_ok)
    show ?thesis
    proof (cases "fin \<ge> ?n")
      case True
      show ?thesis
        by (subst chunkLoop.simps) (use \<open>start < ?n\<close> we sl True in \<open>simp add: Let_def\<close>)
    next
      case False
      with half have h: "start + ChunkSize cfg div 2 < fin" by simp
      have "ChunkOverlap cfg \<le> ChunkSize cfg div 2" using ov by simp
      with h have prog: "start < ?start'" using \<open>0 \<le> start\<close> by auto
      then have "nat (?n - ?start') < nat (?n - start)" using True by linarith
      moreover have "0 \<le> ?start'" by simp
      ultimately obtain y where "chunkLoop cfg runes ?start' ?chunks' = Some y"
        using less.hyps by blast
      then show ?thesis
        by (subst chunkLoop.simps) (use \<open>start < ?n\<close> we sl False in \<open>simp add: Let_def\<close>)
    qed
  qed
qed

lemma stuck_windowEnd: "windowEnd cfg43 stuckText 0 = Inr 3"
  by (simp add: windowEnd_def cfg43_def stuckText_def runes_of_def scanBack.simps
      isSentenceEnd_def isBlank_def go_quot_def)

lemma stuck_slice: "sliceRunes stuckText 0 3 = Inr [97, 98, 99]"
  by (simp add: sliceRunes_def stuckText_def runes_of_def)

lemma stuck_trim: "TrimSpace [97, 98, 99] = [97, 98, 99]"
  by (simp add: TrimSpace_def IsSpace_def)

lemma chunkLoop_stuck_aux:
  assumes run: "chunkLoop cfg0 runes0 start0 chunks0 = Some y0"
  shows "\<not> (cfg0 = cfg43 \<and> runes0 = stuckText \<and> start0 = 0)"
proof (rule chunkLoop.raw_induct [where P = "\<lambda>cfg runes start chunks y.
    \<not> (cfg = cfg43 \<and> runes = stuckText \<and> start = 0)", rotated, OF run], goal_cases)
  case (1 f cfg runes start chunks y)
  show ?case
  proof
    assume a: "cfg = cfg43 \<and> runes = stuckText \<and> start = 0"
    have len: "length stuckText = 9" by (simp add: stuckText_def runes_of_def)
    have ov: "ChunkOverlap cfg43 = 3" by (simp add: cfg43_def)
    have "f cfg43 stuckText 0 (chunks @ [[97, 98, 99]]) = Some y"
      using "1"(2) a
      by (simp add: stuck_windowEnd stuck_slice stuck_trim len ov byteLen_pos_iff)
    from "1"(1) [OF this] show False by simp
  qed
qed

lemma chunkText_stuck: "chunkText cfg43 stuckText = None"
proof -
  have n: "ReplaceCRLF (TrimSpace stuckText) = stuckText"
    by (simp add: stuckText_def runes_of_def TrimSpace_def IsSpace_def)
  have "chunkLoop cfg43 stuckText 0 [] = None"
    using chunkLoop_stuck_aux [of cfg43 stuckText 0 "[]"] by (cases "chunkLoop cfg43 stuckText 0 []") auto
  moreover have "stuckText \<noteq> []" by (simp add: stuckText_def runes_of_def)
  ultimately show ?thesis
    unfolding chunkText_def n Let_def by simp
qed

text \<open>
  Claim C1 says that with \<open>size > overlap \<ge> 0\<close> every iteration moves the window start
  forward, so that the loop ends. The code does not: with size 4 and overlap 3 on the text
  \<^verbatim>\<open>"abc defgh"\<close> the first window is cut at the space (end 3), the next start is
  \<open>3 - 3 = 0\<close> again, and the run never returns.
\<close>

theorem chunkText_no_progress:
  "windowEnd cfg43 stuckText 0 = Inr 3 \<and> 3 - ChunkOverlap cfg43 = 0 \<and>
   chunkText cfg43 stuckText = None"
  using stuck_windowEnd chunkText_stuck by (simp add: cfg43_def)

text \<open>
  Claim C7, amended. For \<open>0 \<le> overlap < size\<close>: when \<open>2 * overlap \<le> size\<close> the chunker
  returns; and whenever it returns, it returns chunks without a panic, none of them empty,
  at least one when the trimmed text is not empty, and every position of the normalised
  text that holds a code point other than white space lies in a window whose trimmed
  content is one of the chunks (white space at the edge of a window is dropped).
\<close>

theorem chunkText_cover:
  assumes "0 \<le> ChunkOverlap cfg" "ChunkOverlap cfg < ChunkSize cfg"
  shows "(2 * ChunkOverlap cfg \<le> ChunkSize cfg \<longrightarrow> chunkText cfg text0 \<noteq> None) \<and>
    (\<forall>r. chunkText cfg text0 = Some r \<longrightarrow>
      (\<exists>chunks. r = Inr chunks \<and> [] \<notin> set chunks \<and>
         (TrimSpace text0 \<noteq> [] \<longrightarrow> chunks \<noteq> []) \<and>
         (\<forall>i < length (ReplaceCRLF (TrimSpace text0)).
            \<not> IsSpace (ReplaceCRLF (TrimSpace text0) ! i) \<longrightarrow>
            covered (ReplaceCRLF (TrimSpace text0)) chunks i)))"
proof (intro conjI impI allI)
  let ?runes = "ReplaceCRLF (TrimSpace text0)"
  assume "2 * ChunkOverlap cfg \<le> ChunkSize cfg"
  then have "\<exists>y. chunkLoop cfg ?runes 0 [] = Some y"
    using assms by (intro chunkLoop_terminates) auto
  then show "chunkText cfg text0 \<noteq> None"
    by (auto simp: chunkText_def Let_def)
next
  let ?runes = "ReplaceCRLF (TrimSpace text0)"
  fix r
  assume run: "chunkText cfg text0 = Some r"
  have "\<exists>chunks. r = Inr chunks \<and> [] \<notin> set chunks \<and>
      (\<forall>i. i < length ?runes \<and> \<not> IsSpace (?runes ! i) \<longrightarrow> covered ?runes chunks i)"
  proof (cases "?runes = []")
    case True
    with run show ?thesis by (auto simp: chunkText_def Let_def)
  next
    case False
    with run have "chunkLoop cfg ?runes 0 [] = Some r"
      by (simp add: chunkText_def Let_def)
    from chunkLoop_partial [OF this] assms show ?thesis by auto
  qed
  then obtain chunks where r: "r = Inr chunks" and ne: "[] \<notin> set chunks"
    and cov: "\<forall>i. i < length ?runes \<and> \<not> IsSpace (?runes ! i) \<longrightarrow> covered ?runes chunks i"
    by blast
  have "chunks \<noteq> []" if ne0: "TrimSpace text0 \<noteq> []"
  proof -
    obtain x where x: "x \<in> set (TrimSpace text0)" "\<not> IsSpace x"
      using TrimSpace_nonspace [OF ne0] by blast
    then have "x \<noteq> 13" by (auto simp: IsSpace_def)
    with x have "x \<in> set ?runes" by (simp add: ReplaceCRLF_keeps)
    then obtain i where "i < length ?runes" "?runes ! i = x"
      by (auto simp: in_set_conv_nth)
    with cov x have "covered ?runes chunks i" by blast
    then show ?thesis unfolding covered_def by auto
  qed
  with r ne cov show "\<exists>chunks. r = Inr chunks \<and> [] \<notin> set chunks \<and>
         (TrimSpace text0 \<noteq> [] \<longrightarrow> chunks \<noteq> []) \<and>
         (\<forall>i < length ?runes. \<not> IsSpace (?runes ! i) \<longrightarrow> covered ?runes chunks i)"
    by blast
qed

text \<open>
  A text that is empty after trimming, such as one of white space only, has no chunk,
  whatever the configuration.
\<close>

lemma chunkText_blank: "TrimSpace text0 = [] \<Longrightarrow> chunkText cfg text0 = Some (Inr [])"
  by (simp add: chunkText_def)

lemma chunkText_ab_cd:
  "chunkText cfg30 (runes_of ''ab cd'') = Some (Inr [[97, 98], [99, 100]])"
  by (simp add: chunkText_def cfg30_def runes_of_def TrimSpace_def IsSpace_def chunkLoop.simps
      windowEnd_def scanBack.simps isSentenceEnd_def isBlank_def go_quot_def sliceRunes_def
      byteLen_def RuneLen_def)

text \<open>
  Claim C7 as stated fails: with size 3 and no overlap \<^verbatim>\<open>"ab cd"\<close> is cut into
  \<^verbatim>\<open>"ab"\<close> and \<^verbatim>\<open>"cd"\<close>, and the space is in neither; and the text of two spaces is
  not empty but has no chunk.
\<close>

theorem chunkText_drops_space_counterexample:
  "chunkText cfg30 (runes_of ''ab cd'') = Some (Inr [[97, 98], [99, 100]]) \<and>
   32 \<in> set (runes_of ''ab cd'') \<and> 32 \<notin> set (concat [[97, 98], [99, 100 :: nat]]) \<and>
   runes_of ''  '' \<noteq> [] \<and> chunkText cfg30 (runes_of ''  '') = Some (Inr [])"
  using chunkText_ab_cd
  by (simp add: chunkText_def runes_of_def TrimSpace_def IsSpace_def)

text \<open>The theorem at size 10, overlap 2, on a text with surrounding spaces.\<close>

theorem chunkText_cover_witness:
  "0 \<le> ChunkOverlap cfg102 \<and> ChunkOverlap cfg102 < ChunkSize cfg102 \<and>
   2 * ChunkOverlap cfg102 \<le> ChunkSize cfg102 \<and>
   chunkText cfg102 (runes_of ''  Hello world. Bye now, friend.  '') =
     Some (Inr [runes_of ''Hello worl'', runes_of ''rld. Bye'', runes_of ''ye now,'',
                runes_of ''w, friend.''])"
  using chunkText_cover [of cfg102 "runes_of ''  Hello world. Bye now, friend.  ''"]
  by (simp add: chunkText_def cfg102_def runes_of_def TrimSpace_def IsSpace_def chunkLoop.simps
      windowEnd_def scanBack.simps isSentenceEnd_def isBlank_def go_quot_def sliceRunes_def
      byteLen_def RuneLen_def)

section \<open>Properties of the store, search and ranking\<close>

lemma cosineSums_fold:
  "length a = length b \<Longrightarrow>
   foldl (\<lambda>(dotProduct, normA, normB) (x, y).
              (f64_add ops dotProduct (f64_mul ops (f64_of_f32 ops x) (f64_of_f32 ops y)),
               f64_add ops normA (f64_mul ops (f64_of_f32 ops x) (f64_of_f32 ops x)),
               f64_add ops normB (f64_mul ops (f64_of_f32 ops y) (f64_of_f32 ops y))))
       (d, na, nb) (zip a b) =
   (foldl (\<lambda>d (x, y). f64_add ops d (f64_mul ops (f64_of_f32 ops x) (f64_of_f32 ops y))) d (zip a b),
    foldl (\<lambda>n x. f64_add ops n (f64_mul ops (f64_of_f32 ops x) (f64_of_f32 ops x))) na a,
    foldl (\<lambda>n x. f64_add ops n (f64_mul ops (f64_of_f32 ops x) (f64_of_f32 ops x))) nb b)"
  by (induction a b arbitrary: d na nb rule: list_induct2) simp_all

lemma cosineSums_norms:
  "length a = length b \<Longrightarrow>
   \<exists>d. cosineSums ops a b = (d, sumSquares ops a, sumSquares ops b)"
  by (simp add: cosineSums_def sumSquares_def cosineSums_fold)

lemma sumSquares_div_irrelevant [simp]:
  "sumSquares (ops\<lparr>f64_div := dv\<rparr>) a = sumSquares ops a"
  by (simp add: sumSquares_def)

text \<open>
  Claim C6. Cosine similarity is the float64 zero when either vector is empty, when the
  dimensions differ, or when the squared norm that the loop accumulates for either vector
  compares equal to zero. The result is the same whatever the division operation is
  (\<open>dv\<close> is arbitrary): in these cases the division is not evaluated.
\<close>

theorem cosineSimilarity_degenerate:
  assumes "a = [] \<or> b = [] \<or> length a \<noteq> length b \<or>
           f64_eq ops (sumSquares ops a) (f64_of_int ops 0) \<or>
           f64_eq ops (sumSquares ops b) (f64_of_int ops 0)"
  shows "cosineSimilarity (ops\<lparr>f64_div := dv\<rparr>) a b = f64_of_int ops 0"
proof (cases "length a \<noteq> length b \<or> length a = 0")
  case True
  then show ?thesis
    unfolding cosineSimilarity_def by simp
next
  case False
  let ?ops = "ops\<lparr>f64_div := dv\<rparr>"
  from False have len: "length a = length b" and ne: "a \<noteq> []" by auto
  from len ne have nb: "b \<noteq> []" by auto
  with assms len ne have z: "f64_eq ops (sumSquares ops a) (f64_of_int ops 0) \<or>
      f64_eq ops (sumSquares ops b) (f64_of_int ops 0)" by blast
  obtain d where cs: "cosineSums ?ops a b = (d, sumSquares ops a, sumSquares ops b)"
    using cosineSums_norms [OF len, of ?ops] by auto
  have "cosineSimilarity ?ops a b =
      (if f64_eq ops (sumSquares ops a) (f64_of_int ops 0) \<or>
          f64_eq ops (sumSquares ops b) (f64_of_int ops 0)
       then f64_of_int ops 0
       else dv d (f64_mul ops (f64_sqrt ops (sumSquares ops a)) (f64_sqrt ops (sumSquares ops b))))"
    unfolding cosineSimilarity_def using len ne nb by (simp add: cs)
  with z show ?thesis by simp
qed

text \<open>The theorem with exact arithmetic: different dimensions, empty vectors, a zero vector.\<close>

theorem cosineSimilarity_degenerate_witness:
  "cosineSimilarity exact_fpu [1, 0] [1, 0, 0] = 0 \<and>
   cosineSimilarity exact_fpu [] [] = 0 \<and>
   sumSquares exact_fpu [0, 0] = 0 \<and>
   cosineSimilarity exact_fpu [0, 0] [3, 4] = 0"
  using cosineSimilarity_degenerate [of "[1, 0]" "[1, 0, 0]" exact_fpu "f64_div exact_fpu"]
    cosineSimilarity_degenerate [of "[]" "[]" exact_fpu "f64_div exact_fpu"]
    cosineSimilarity_degenerate [of "[0, 0]" "[3, 4]" exact_fpu "f64_div exact_fpu"]
  by (simp add: exact_fpu_def sumSquares_def)

lemma length_stubLoop: "length (stubLoop ops i rs embedding) = length embedding"
  by (induction rs arbitrary: i embedding) (simp_all add: Let_def)

lemma length_stubEmbedding: "length (stubEmbedding lower ops text0) = 384"
  by (simp add: stubEmbedding_def Let_def length_stubLoop)

lemma length_le32: "length (le32 w) = 4"
  by (simp add: le32_def)

lemma length_float32SliceToBytes: "length (float32SliceToBytes ops floats) = 4 * length floats"
  by (induction floats) (simp_all add: float32SliceToBytes_def length_le32)

lemma length_roundtrip:
  "length (bytesToFloat32Slice ops (float32SliceToBytes ops floats)) = length floats"
  by (simp add: bytesToFloat32Slice_def length_float32SliceToBytes)

text \<open>
  Claim C10. The stub embedding of any text (the empty one included) has exactly 384
  components and is a function of the text alone; so a stub query embedding and a stub
  document embedding read back from its stored bytes have the same, non-zero dimension,
  and the first guard of \<open>cosineSimilarity\<close> does not apply to them.
\<close>

theorem stubEmbedding_dimension:
  "length (stubEmbedding lower ops text0) = 384 \<and>
   (text0 = text1 \<longrightarrow> stubEmbedding lower ops text0 = stubEmbedding lower ops text1) \<and>
   length (stubEmbedding lower ops query) =
     length (bytesToFloat32Slice ops (float32SliceToBytes ops (stubEmbedding lower ops doc))) \<and>
   length (stubEmbedding lower ops query) \<noteq> 0"
  by (simp add: length_stubEmbedding length_roundtrip)

text \<open>The theorem at the empty text and at two short texts.\<close>

theorem stubEmbedding_dimension_witness:
  "length (stubEmbedding asciiLower exact_fpu []) = 384 \<and>
   length (stubEmbedding asciiLower exact_fpu (runes_of ''Hi'')) =
     length (bytesToFloat32Slice exact_fpu (float32SliceToBytes exact_fpu
       (stubEmbedding asciiLower exact_fpu (runes_of ''right of access'')))) \<and>
   length (stubEmbedding asciiLower exact_fpu (runes_of ''Hi'')) \<noteq> 0"
  using stubEmbedding_dimension [of asciiLower exact_fpu "[]" "[]" "runes_of ''Hi''"
      "runes_of ''right of access''"]
  by blast

lemma length_accented: "length accented = 101"
  by (simp add: accented_def)

lemma length_utf8_accented: "length (utf8 accented) = 201"
  by (simp add: accented_def utf8_def EncodeRune_def length_concat sum_list_replicate)

lemma snippetOf_accented: "snippetOf accented = take 200 (utf8 accented) @ ''...''"
  by (simp add: snippetOf_def Let_def length_utf8_accented)

lemma concat_replicate_pair_nth:
  "i < 2 * n \<Longrightarrow> concat (replicate n [x, y]) ! i = (if even i then x else y)"
proof (induction n arbitrary: i)
  case 0
  then show ?case by simp
next
  case (Suc n)
  show ?case
  proof (cases i)
    case 0
    then show ?thesis by simp
  next
    case (Suc j)
    show ?thesis
    proof (cases j)
      case 0
      with Suc show ?thesis by simp
    next
      case (Suc k)
      with \<open>i = Suc j\<close> Suc.prems have "k < 2 * n" by simp
      then have "concat (replicate n [x, y]) ! k = (if even k then x else y)"
        by (rule Suc.IH)
      with Suc \<open>i = Suc j\<close> show ?thesis by simp
    qed
  qed
qed

lemma snippetOf_accented_199: "snippetOf accented ! 199 = char_of (0xC3 :: nat)"
proof -
  have u: "utf8 accented = char_of (97 :: nat) # concat (replicate 100 [char_of (0xC3 :: nat), char_of (0xA9 :: nat)])"
    by (simp add: accented_def utf8_def EncodeRune_def map_replicate_const)
  have "snippetOf accented ! 199 = utf8 accented ! 199"
    by (simp add: snippetOf_accented nth_append length_utf8_accented)
  also have "\<dots> = concat (replicate 100 [char_of (0xC3 :: nat), char_of (0xA9 :: nat)]) ! 198"
    by (simp add: u)
  also have "\<dots> = char_of (0xC3 :: nat)"
    by (subst concat_replicate_pair_nth) simp_all
  finally show ?thesis .
qed

text \<open>
  Claim C8 says that a passage of at most 200 characters is its own snippet. The code
  measures and cuts bytes: the passage \<^verbatim>\<open>a\<close> followed by 100 times U+00E9 has 101
  characters in 201 bytes; its snippet is the first 200 bytes and the marker, it differs
  from the passage, and byte 199 is the lead byte 0xC3 of the last character, cut off from
  its continuation byte.
\<close>

theorem snippet_cuts_bytes:
  "length accented = 101 \<and> length (utf8 accented) = 201 \<and>
   snippetOf accented = take 200 (utf8 accented) @ ''...'' \<and>
   snippetOf accented \<noteq> utf8 accented \<and>
   snippetOf accented ! 199 = char_of (0xC3 :: nat)"
proof -
  have "length (snippetOf accented) = 203"
    by (simp add: snippetOf_accented length_utf8_accented)
  then have "snippetOf accented \<noteq> utf8 accented"
    using length_utf8_accented by auto
  then show ?thesis
    using length_accented length_utf8_accented snippetOf_accented snippetOf_accented_199 by simp
qed

lemma sqlite_queryDocument_missing:
  "i \<notin> Document.ID ` set (documents st) \<Longrightarrow> queryDocument (sqlite ord st) i = ErrNoRows"
proof -
  assume "i \<notin> Document.ID ` set (documents st)"
  then have "find (\<lambda>d. Document.ID d = i) (documents st) = None"
    by (auto simp: find_None_iff)
  then show ?thesis by (simp add: sqlite_def)
qed

text \<open>
  Claim C9, amended. For an id that no row of the documents table has, \<open>GetDocument\<close>
  returns no document and no error, and the \<^verbatim>\<open>gdpr_get\<close> handler answers with a tool
  error: \<^verbatim>\<open>Document not found\<close> for a positive id, and
  \<^verbatim>\<open>Valid document ID is required\<close> for an id that is zero or negative, which it
  rejects before it asks the store.
\<close>

theorem get_missing_document:
  assumes "i \<notin> Document.ID ` set (documents st)"
  shows "GetDocument (sqlite ord st) i = (None, None) \<and>
         handleGetTool marshal (sqlite ord st) (Inr i) =
           writeToolError (if i \<le> 0 then ''Valid document ID is required''
                           else ''Document not found'')"
  using sqlite_queryDocument_missing [OF assms, of ord]
  by (simp add: GetDocument_def handleGetTool_def)

text \<open>The theorem at id 99999, which the three-document store does not hold.\<close>

theorem get_missing_document_witness:
  "99999 \<notin> Document.ID ` set (documents miniStore) \<and>
   GetDocument (sqlite id miniStore) 99999 = (None, None) \<and>
   handleGetTool (\<lambda>d. Inr []) (sqlite id miniStore) (Inr 99999) =
     \<lparr>Content = [\<lparr>Type = ''text'', Text = ''Document not found''\<rparr>], IsError = True\<rparr>"
  using get_missing_document [of 99999 miniStore id "\<lambda>d. Inr []"]
  by (simp add: miniStore_def writeToolError_def)

text \<open>
  Claim C9 as stated fails at id 0, which the empty store does not hold: the handler's
  answer is not \<^verbatim>\<open>Document not found\<close>.
\<close>

theorem get_nonpositive_id_counterexample:
  "0 \<notin> Document.ID ` set (documents emptyStore) \<and>
   handleGetTool (\<lambda>d. Inr []) (sqlite id emptyStore) (Inr 0) =
     \<lparr>Content = [\<lparr>Type = ''text'', Text = ''Valid document ID is required''\<rparr>], IsError = True\<rparr> \<and>
   handleGetTool (\<lambda>d. Inr []) (sqlite id emptyStore) (Inr 0) \<noteq> writeToolError ''Document not found''"
  by (simp add: handleGetTool_def emptyStore_def writeToolError_def)

lemma trigramRows_Inr:
  "trigramRows ops (f64_of_int ops (int n)) (map Inr rows) acc = Inr (acc @ map (lexResult ops n) rows)"
  by (induction rows arbitrary: acc) (auto simp: lexResult_def)

lemma SearchTrigrams_sqlite:
  assumes "GenerateTrigrams lower (ToLower lower query) = Q" "Q \<noteq> []"
  shows "SearchTrigrams lower ops (sqlite ord st) query limit =
           (map (lexResult ops (length Q)) (sql_limit limit (ord (trigramGroups st Q))), None)"
  using assms by (simp add: SearchTrigrams_def sqlite_def trigramRows_Inr)

lemma SearchTrigrams_sqlite_empty:
  assumes "GenerateTrigrams lower (ToLower lower query) = []"
  shows "SearchTrigrams lower ops db query limit = ([], None)"
  using assms by (simp add: SearchTrigrams_def)

lemma SearchTrigrams_frame [simp]:
  "SearchTrigrams lower ops (db\<lparr>queryEmbeddings := qe\<rparr>) query limit =
   SearchTrigrams lower ops db query limit"
  by (simp add: SearchTrigrams_def Let_def)

lemma limitTo_pos: "0 \<le> limit \<Longrightarrow> limitTo xs limit = Inr (take (nat limit) xs)"
  by (auto simp: limitTo_def)

lemma sint_double_small:
  fixes l :: "64 word"
  assumes "0 < sint l" "sint l < 2 ^ 62"
  shows "sint (l * 2) = 2 * sint l"
proof -
  have "sint (l * 2) = signed_take_bit 63 (sint l * 2)"
    by (simp add: sint_word_ariths)
  also have "\<dots> = sint l * 2"
    using assms by (intro signed_take_bit_int_eq_self) simp_all
  finally show ?thesis by simp
qed

lemma sint_double_big:
  fixes l :: "64 word"
  assumes "2 ^ 62 \<le> sint l"
  shows "sint (l * 2) < 0"
proof -
  have up: "sint l < 2 ^ 63" using sint_lt [of l] by simp
  define k where "k = sint l * 2"
  have k: "2 ^ 63 \<le> k" "k < 2 ^ 64" using assms up by (simp_all add: k_def)
  have "sint (l * 2) = signed_take_bit 63 k"
    by (simp add: sint_word_ariths k_def)
  also have "\<dots> = take_bit 64 (k + 2 ^ 63) - 2 ^ 63"
    by (simp add: signed_take_bit_eq_take_bit_shift)
  also have "take_bit 64 (k + 2 ^ 63) = (k + 2 ^ 63) mod 2 ^ 64"
    by (simp add: take_bit_eq_mod)
  also have "(k + 2 ^ 63) mod 2 ^ 64 = k + 2 ^ 63 - 2 ^ 64"
  proof -
    have "(k + 2 ^ 63) mod 2 ^ 64 = (k + 2 ^ 63 - 2 ^ 64) mod 2 ^ 64"
      by (metis minus_mod_self2)
    also have "\<dots> = k + 2 ^ 63 - 2 ^ 64"
      using k by (intro mod_pos_pos_trivial) simp_all
    finally show ?thesis .
  qed
  finally show ?thesis using k by simp
qed

lemma take_sql_limit_double:
  fixes limit :: "64 word"
  assumes "0 < sint limit"
  shows "take (nat (sint limit)) (sql_limit (sint (limit * 2)) rows) = sql_limit (sint limit) rows"
proof (cases "sint limit < 2 ^ 62")
  case True
  then show ?thesis
    using assms by (simp add: sint_double_small sql_limit_def min_def)
next
  case False
  then have "sint (limit * 2) < 0" by (intro sint_double_big) simp
  then show ?thesis using assms by (simp add: sql_limit_def)
qed

lemma HybridSearch_None:
  assumes "0 \<le> sint limit"
  shows "HybridSearch lower ops vsrt msrt db query None limit =
           (case SearchTrigrams lower ops db query (sint (limit * 2)) of
              (rs, Some e) \<Rightarrow> Inr ([], Some e)
            | (rs, None) \<Rightarrow> Inr (take (nat (sint limit)) rs, None))"
  by (simp add: HybridSearch_def limitTo_pos [OF assms] split: prod.splits option.splits)

lemma HybridSearch_None_sqlite:
  assumes "0 < sint limit"
  shows "HybridSearch lower ops vsrt msrt (sqlite ord st) query None limit =
           Inr (SearchTrigrams lower ops (sqlite ord st) query (sint limit))"
proof -
  have l0: "0 \<le> sint limit" using assms by simp
  show ?thesis
  proof (cases "GenerateTrigrams lower (ToLower lower query) = []")
    case True
    then show ?thesis by (simp add: HybridSearch_None [OF l0] SearchTrigrams_sqlite_empty)
  next
    case False
    then show ?thesis
      by (simp add: HybridSearch_None [OF l0] SearchTrigrams_sqlite [OF refl] take_map
          take_sql_limit_double [OF assms])
  qed
qed

text \<open>
  Claim C3. With a positive limit (any positive value of Go's \<^verbatim>\<open>int\<close>) and no query vector,
  \<open>HybridSearch\<close> returns the outcome of the lexical search (run with twice the limit, as
  the machine computes it) cut to the limit, and the lexical search's error if it has one;
  the outcome does not depend on the sort parameters nor on what the embeddings query would
  return, so no vector scan takes part; and on a store it is exactly the lexical search
  with the limit itself, also where doubling the limit wraps around.
\<close>

theorem HybridSearch_no_vector:
  assumes "0 < sint limit"
  shows "HybridSearch lower ops vsrt msrt db query None limit =
           (case SearchTrigrams lower ops db query (sint (limit * 2)) of
              (rs, Some e) \<Rightarrow> Inr ([], Some e)
            | (rs, None) \<Rightarrow> Inr (take (nat (sint limit)) rs, None)) \<and>
         HybridSearch lower ops vsrt' msrt' (db\<lparr>queryEmbeddings := qe\<rparr>) query None limit =
           HybridSearch lower ops vsrt msrt db query None limit \<and>
         HybridSearch lower ops vsrt msrt (sqlite ord st) query None limit =
           Inr (SearchTrigrams lower ops (sqlite ord st) query (sint limit))"
proof (intro conjI)
  have l0: "0 \<le> sint limit" using assms by simp
  show "HybridSearch lower ops vsrt msrt db query None limit =
           (case SearchTrigrams lower ops db query (sint (limit * 2)) of
              (rs, Some e) \<Rightarrow> Inr ([], Some e)
            | (rs, None) \<Rightarrow> Inr (take (nat (sint limit)) rs, None))"
    by (rule HybridSearch_None [OF l0])
  show "HybridSearch lower ops vsrt' msrt' (db\<lparr>queryEmbeddings := qe\<rparr>) query None limit =
           HybridSearch lower ops vsrt msrt db query None limit"
    by (simp add: HybridSearch_None [OF l0])
  show "HybridSearch lower ops vsrt msrt (sqlite ord st) query None limit =
           Inr (SearchTrigrams lower ops (sqlite ord st) query (sint limit))"
    by (rule HybridSearch_None_sqlite [OF assms])
qed

lemma mini_query: "GenerateTrigrams asciiLower (ToLower asciiLower (runes_of ''abcde'')) =
    [runes_of ''abc'', runes_of ''bcd'', runes_of ''cde'']"
  by (simp add: GenerateTrigrams_def ToLower_def TrimSpace_def IsSpace_def asciiLower_def
      byteLen_def RuneLen_def trigramLoop.simps runes_of_def)

lemma mini_groups:
  "trigramGroups miniStore [runes_of ''abc'', runes_of ''bcd'', runes_of ''cde''] =
     [(1, runes_of ''abcd'', 2), (2, runes_of ''bcde'', 2)]"
  by (simp add: trigramGroups_def miniStore_def runes_of_def)

lemma mini_search:
  "SearchTrigrams asciiLower exact_fpu (sqlite countDescStable miniStore) (runes_of ''abcde'') 1 =
     ([\<lparr>ID = 1, Score = 2 / 3, Snippet = ''abcd''\<rparr>], None)"
proof -
  have "SearchTrigrams asciiLower exact_fpu (sqlite countDescStable miniStore) (runes_of ''abcde'') 1 =
      (map (lexResult exact_fpu 3)
         (sql_limit 1 (countDescStable [(1, runes_of ''abcd'', 2), (2, runes_of ''bcde'', 2)])), None)"
    using SearchTrigrams_sqlite [OF mini_query, of exact_fpu countDescStable miniStore 1] mini_groups
    by (simp add: numeral_3_eq_3)
  also have "sql_limit 1 (countDescStable [(1, runes_of ''abcd'', 2), (2, runes_of ''bcde'', 2)]) =
      [(1, runes_of ''abcd'', 2)]"
    by (simp add: countDescStable_def sql_limit_def)
  also have "map (lexResult exact_fpu 3) [(1, runes_of ''abcd'', 2)] =
      [\<lparr>ID = 1, Score = 2 / 3, Snippet = ''abcd''\<rparr>]"
    by (simp add: lexResult_def snippetOf_def utf8_def EncodeRune_def runes_of_def exact_fpu_def
        char_of_def bit_Suc_0_iff)
  finally show ?thesis .
qed

text \<open>The theorem on the three-document store, limit 1.\<close>

theorem HybridSearch_no_vector_witness:
  "0 < sint (1 :: 64 word) \<and>
   HybridSearch asciiLower exact_fpu (\<lambda>cmp. id) (\<lambda>cmp. id) (sqlite countDescStable miniStore)
     (runes_of ''abcde'') None 1 =
     Inr ([\<lparr>ID = 1, Score = 2 / 3, Snippet = ''abcd''\<rparr>], None)"
proof -
  have pos: "0 < sint (1 :: 64 word)" by simp
  have "HybridSearch asciiLower exact_fpu (\<lambda>cmp. id) (\<lambda>cmp. id) (sqlite countDescStable miniStore)
          (runes_of ''abcde'') None 1 =
        Inr (SearchTrigrams asciiLower exact_fpu (sqlite countDescStable miniStore)
          (runes_of ''abcde'') (sint (1 :: 64 word)))"
    using HybridSearch_no_vector [OF pos, of asciiLower exact_fpu "\<lambda>cmp. id" "\<lambda>cmp. id"
      "sqlite countDescStable miniStore" "runes_of ''abcde''" "\<lambda>cmp. id" "\<lambda>cmp. id"
      "queryEmbeddings (sqlite countDescStable miniStore)" countDescStable miniStore]
    by blast
  then show ?thesis by (simp add: mini_search)
qed

section \<open>Properties of the lexical ranking on a store\<close>




















lemma mini_query_abcd:
  "GenerateTrigrams asciiLower (ToLower asciiLower (runes_of ''abcd'')) =
     [runes_of ''abc'', runes_of ''bcd'']"
  by (simp add: GenerateTrigrams_def ToLower_def TrimSpace_def IsSpace_def asciiLower_def
      byteLen_def RuneLen_def trigramLoop.simps runes_of_def)

lemma mini_groups_abcd:
  "trigramGroups miniStore [runes_of ''abc'', runes_of ''bcd''] =
     [(1, runes_of ''abcd'', 2), (2, runes_of ''bcde'', 1)]"
  by (simp add: trigramGroups_def miniStore_def runes_of_def)

lemma mini_order_abcd:
  "orderByMatchCountDesc byAscendingId [(1, runes_of ''abcd'', 2), (2, runes_of ''bcde'', 1)] =
     [(1, runes_of ''abcd'', 2), (2, runes_of ''bcde'', 1)]"
  by (simp add: orderByMatchCountDesc_def byAscendingId_def)

lemma mini_results_abcd:
  "map (lexResult exact_fpu 2) [(1, runes_of ''abcd'', 2), (2, runes_of ''bcde'', 1)] =
     [\<lparr>ID = 1, Score = 1, Snippet = ''abcd''\<rparr>, \<lparr>ID = 2, Score = 1 / 2, Snippet = ''bcde''\<rparr>]"
  by (simp add: lexResult_def snippetOf_def utf8_def EncodeRune_def runes_of_def exact_fpu_def
      char_of_def bit_Suc_0_iff)



section \<open>Properties of the reciprocal rank fusion\<close>

lemma map_of_addScore:
  "map_of (addScore ops scores k x) = (map_of scores)(k \<mapsto> f64_add ops (valOf ops scores k) x)"
proof (induction scores)
  case Nil
  then show ?case by (simp add: valOf_def)
next
  case (Cons p scores)
  obtain k' v where p: "p = (k', v)" by (cases p)
  show ?case
  proof (cases "k' = k")
    case True
    then show ?thesis by (simp add: p valOf_def fun_eq_iff)
  next
    case False
    then have "valOf ops ((k', v) # scores) k = valOf ops scores k" by (simp add: valOf_def)
    with False Cons show ?thesis by (auto simp: p fun_eq_iff)
  qed
qed

lemma keys_addScore:
  "map fst (addScore ops scores k x) =
     (if k \<in> fst ` set scores then map fst scores else map fst scores @ [k])"
proof (induction scores)
  case Nil
  then show ?case by simp
next
  case (Cons p scores)
  obtain k' v where p: "p = (k', v)" by (cases p)
  show ?case
  proof (cases "k' = k")
    case True
    then show ?thesis by (simp add: p)
  next
    case False
    with Cons show ?thesis by (simp add: p)
  qed
qed

lemma keyset_addScore:
  "fst ` set (addScore ops scores k x) = insert k (fst ` set scores)"
proof -
  have "set (map fst (addScore ops scores k x)) = insert k (set (map fst scores))"
    unfolding keys_addScore by auto
  then show ?thesis by simp
qed

lemma distinct_addScore:
  "distinct (map fst scores) \<Longrightarrow> distinct (map fst (addScore ops scores k x))"
  by (simp add: keys_addScore)

lemma valOf_addScore:
  "valOf ops (addScore ops scores k x) j =
     (if j = k then f64_add ops (valOf ops scores k) x else valOf ops scores j)"
  by (simp add: valOf_def map_of_addScore)

lemma keys_scoresAfter:
  "fst ` set (scoresAfter ops i rs scores) = fst ` set scores \<union> ID ` set rs"
  by (induction rs arbitrary: i scores) (simp_all add: keyset_addScore)

lemma distinct_scoresAfter:
  "distinct (map fst scores) \<Longrightarrow> distinct (map fst (scoresAfter ops i rs scores))"
  by (induction rs arbitrary: i scores) (simp_all add: distinct_addScore)

lemma valOf_scoresAfter:
  "valOf ops (scoresAfter ops i rs scores) k =
     foldl (f64_add ops) (valOf ops scores k) (termsOf ops i rs k)"
  by (induction rs arbitrary: i scores) (simp_all add: valOf_addScore)

lemma fst_mergeTrigram: "fst (mergeTrigram ops i rs (scores, snippets)) = scoresAfter ops i rs scores"
  by (induction rs arbitrary: i scores snippets) simp_all

lemma fst_mergeVector: "fst (mergeVector ops i rs (scores, snippets)) = scoresAfter ops i rs scores"
  by (induction rs arbitrary: i scores snippets) simp_all

lemma termsOf_absent: "k \<notin> ID ` set rs \<Longrightarrow> termsOf ops i rs k = []"
  by (induction rs arbitrary: i) auto

lemma termsOf_distinct:
  "distinct (map ID rs) \<Longrightarrow> k \<in> ID ` set rs \<Longrightarrow>
   termsOf ops i rs k = [rrfTerm ops (i + length (takeWhile (\<lambda>r. ID r \<noteq> k) rs))]"
proof (induction rs arbitrary: i)
  case Nil
  then show ?case by simp
next
  case (Cons r rs)
  show ?case
  proof (cases "ID r = k")
    case True
    with Cons.prems have "k \<notin> ID ` set rs" by auto
    then have "termsOf ops (i + 1) rs k = []" by (rule termsOf_absent)
    with True show ?thesis by simp
  next
    case False
    with Cons.prems have "k \<in> ID ` set rs" "distinct (map ID rs)" by auto
    then have "termsOf ops (i + 1) rs k =
        [rrfTerm ops (i + 1 + length (takeWhile (\<lambda>r. ID r \<noteq> k) rs))]"
      using Cons.IH by blast
    with False show ?thesis by simp
  qed
qed

lemma termsOf_partials:
  assumes "distinct (map ID rs)"
  shows "termsOf ops 0 rs k = rrfPartials ops rs k"
proof (cases "k \<in> ID ` set rs")
  case False
  then show ?thesis by (simp add: termsOf_absent rrfPartials_def)
next
  case True
  have "int (length (takeWhile (\<lambda>r. ID r \<noteq> k) rs)) + 1 = int (rankOf rs k)"
    by (simp add: rankOf_def)
  then show ?thesis
    using True termsOf_distinct [OF assms True, of ops 0]
    by (simp add: rrfPartials_def rrfTerm_def)
qed

lemma take_rest_sorted:
  assumes "sorted_wrt R xs" "x \<in> set xs" "x \<notin> set (take n xs)" "y \<in> set (take n xs)"
  shows "R y x"
proof -
  from assms(2,3) have "x \<in> set (drop n xs)"
    by (metis Un_iff append_take_drop_id set_append)
  moreover have "sorted_wrt R (take n xs @ drop n xs)" using assms(1) by simp
  ultimately show ?thesis using assms(4) unfolding sorted_wrt_append by blast
qed

lemma fuse_spec:
  assumes srt: "sortsByScoreDesc ops msrt" and lim: "0 \<le> limit"
    and dl: "distinct (map ID lexical)" and dv: "distinct (map ID vectors)"
  shows "\<exists>out. fuse ops msrt lexical vectors limit = Inr out \<and>
      (\<forall>r \<in> set out. ID r \<in> ID ` set lexical \<union> ID ` set vectors \<and>
                       Score r = rrfScore ops lexical vectors (ID r)) \<and>
      distinct (map ID out) \<and>
      sorted_wrt (\<lambda>a b. \<not> f64_gt ops (Score b) (Score a)) out \<and>
      length out = min (nat limit) (card (ID ` set lexical \<union> ID ` set vectors)) \<and>
      (\<forall>k \<in> ID ` set lexical \<union> ID ` set vectors. k \<notin> ID ` set out \<longrightarrow>
         (\<forall>r \<in> set out. \<not> f64_gt ops (rrfScore ops lexical vectors k) (Score r)))"
proof -
  let ?K = "ID ` set lexical \<union> ID ` set vectors"
  define scores where "scores = scoresAfter ops 0 vectors (scoresAfter ops 0 lexical [])"
  define snippets where
    "snippets = snd (mergeVector ops 0 vectors (mergeTrigram ops 0 lexical ([], Map.empty)))"
  have mt: "mergeTrigram ops 0 lexical ([], Map.empty) =
      (scoresAfter ops 0 lexical [], snd (mergeTrigram ops 0 lexical ([], Map.empty)))"
    using fst_mergeTrigram [of ops 0 lexical "[]" Map.empty] by (metis prod.collapse)
  have mv: "mergeVector ops 0 vectors (mergeTrigram ops 0 lexical ([], Map.empty)) = (scores, snippets)"
    unfolding scores_def snippets_def
    by (subst (1 2) mt) (metis fst_mergeVector prod.collapse)
  have keys: "fst ` set scores = ?K"
    by (simp add: scores_def keys_scoresAfter Un_commute)
  have dist: "distinct (map fst scores)"
    by (simp add: scores_def distinct_scoresAfter)
  have val: "valOf ops scores k = rrfScore ops lexical vectors k" for k
  proof -
    have "valOf ops scores k =
        foldl (f64_add ops) (foldl (f64_add ops) (valOf ops [] k) (termsOf ops 0 lexical k))
          (termsOf ops 0 vectors k)"
      by (simp only: scores_def valOf_scoresAfter)
    moreover have "valOf ops [] k = f64_of_int ops 0" by (simp add: valOf_def)
    ultimately show ?thesis
      by (simp add: rrfScore_def termsOf_partials [OF dl] termsOf_partials [OF dv])
  qed
  have entry: "v = rrfScore ops lexical vectors k" if "(k, v) \<in> set scores" for k v
  proof -
    from dist that have "map_of scores k = Some v" by (rule map_of_is_SomeI)
    then have "valOf ops scores k = v" by (simp add: valOf_def)
    with val show ?thesis by simp
  qed
  let ?sorted = "msrt (\<lambda>a b. f64_gt ops (snd a) (snd b)) scores"
  from srt have perm: "mset ?sorted = mset scores"
    and ordered: "sorted_wrt (\<lambda>a b. \<not> f64_gt ops (snd b) (snd a)) ?sorted"
    by (simp_all add: sortsByScoreDesc_def)
  from perm have seteq: "set ?sorted = set scores" by (rule mset_eq_setD)
  from perm have leneq: "length ?sorted = length scores" by (rule mset_eq_length)
  have "mset (map fst ?sorted) = mset (map fst scores)" using perm by simp
  then have sdist: "distinct (map fst ?sorted)"
    using dist by (metis mset_eq_imp_distinct_iff)
  let ?ranked = "take (nat limit) ?sorted"
  let ?mk = "\<lambda>(i, score). \<lparr>ID = i, Score = score,
                 Snippet = (case snippets i of None \<Rightarrow> [] | Some s \<Rightarrow> s)\<rparr>"
  let ?out = "map ?mk ?ranked"
  have fuse_eq: "fuse ops msrt lexical vectors limit = Inr ?out"
    using lim by (simp add: fuse_def mv limitTo_pos)
  have ids: "map ID ?out = map fst ?ranked"
    by (simp add: case_prod_unfold comp_def)
  have scs: "map Score ?out = map snd ?ranked"
    by (simp add: case_prod_unfold comp_def)
  have sub: "set ?ranked \<subseteq> set scores"
    using seteq by (auto dest: in_set_takeD)
  have p1: "\<forall>r \<in> set ?out. ID r \<in> ?K \<and> Score r = rrfScore ops lexical vectors (ID r)"
  proof
    fix r assume "r \<in> set ?out"
    then obtain k v where kv: "(k, v) \<in> set ?ranked" and r: "r = ?mk (k, v)" by auto
    from kv sub have in_scores: "(k, v) \<in> set scores" by blast
    then have "k \<in> fst ` set scores" by force
    with keys have "k \<in> ?K" by simp
    moreover have "v = rrfScore ops lexical vectors k" using in_scores by (rule entry)
    ultimately show "ID r \<in> ?K \<and> Score r = rrfScore ops lexical vectors (ID r)"
      by (simp add: r)
  qed
  have p2: "distinct (map ID ?out)"
    unfolding ids using sdist by (simp add: take_map [symmetric] distinct_take)
  have "sorted_wrt (\<lambda>a b. \<not> f64_gt ops (snd b) (snd a)) ?ranked"
    using ordered by simp
  then have "sorted_wrt (\<lambda>a b. \<not> f64_gt ops (Score (?mk b)) (Score (?mk a))) ?ranked"
    by (rule sorted_wrt_mono_rel [rotated]) (simp add: case_prod_unfold)
  then have p3: "sorted_wrt (\<lambda>a b. \<not> f64_gt ops (Score b) (Score a)) ?out"
    by (simp add: sorted_wrt_map)
  have "card ?K = length scores"
    using dist keys by (metis distinct_card length_map set_map)
  then have p4: "length ?out = min (nat limit) (card ?K)"
    using leneq by (simp add: min.commute)
  have p5: "\<forall>k \<in> ?K. k \<notin> ID ` set ?out \<longrightarrow>
      (\<forall>r \<in> set ?out. \<not> f64_gt ops (rrfScore ops lexical vectors k) (Score r))"
  proof (intro ballI impI)
    fix k r
    assume k: "k \<in> ?K" and nk: "k \<notin> ID ` set ?out" and r: "r \<in> set ?out"
    from k keys obtain v where kv: "(k, v) \<in> set scores" by force
    then have v: "v = rrfScore ops lexical vectors k" by (rule entry)
    have "(k, v) \<notin> set ?ranked"
    proof
      assume "(k, v) \<in> set ?ranked"
      then have "k \<in> set (map fst ?ranked)" by force
      then have "k \<in> set (map ID ?out)" unfolding ids .
      then have "k \<in> ID ` set ?out" by (simp only: set_map)
      with nk show False by blast
    qed
    moreover from r obtain x where x: "x \<in> set ?ranked" and rx: "r = ?mk x" by auto
    ultimately have "\<not> f64_gt ops (snd (k, v)) (snd x)"
      using take_rest_sorted [OF ordered, of "(k, v)" "nat limit" x] kv seteq by simp
    then show "\<not> f64_gt ops (rrfScore ops lexical vectors k) (Score r)"
      by (simp add: v rx case_prod_unfold)
  qed
  from fuse_eq p1 p2 p3 p4 p5 show ?thesis by blast
qed

text \<open>
  Reciprocal rank fusion below the overflow. Let the limit be positive and less than
  \<open>2 ^ 62\<close>, let both searches, run with twice the limit, succeed with the result lists
  \<open>lexical\<close> and \<open>vectors\<close> (each holding a passage at most once, as the primary keys
  of the store give them), and let the sort routine do what \<^verbatim>\<open>sort.Slice\<close> does with the
  comparison it is given. Then \<open>HybridSearch\<close> returns without error a list in which
  every entry is a passage of one of the two lists, no passage occurs twice, and the score
  of a passage is the float sum, started at 0, of its partial scores \<open>1 / (60 + rank)\<close> in
  the lists that hold it (\<open>rank\<close> its 1-based position; a list that does not hold it adds
  nothing); scores do not increase along the list; its length is the limit, or the number
  of passages if that is smaller; and a passage that was cut has a score not greater than
  any returned.
\<close>

lemma HybridSearch_fusion:
  assumes srt: "sortsByScoreDesc ops msrt" and lim: "0 < sint limit" and small: "sint limit < 2 ^ 62"
    and lx: "SearchTrigrams lower ops db query (2 * sint limit) = (lexical, None)"
    and vc: "SearchVectors ops vsrt db embedding (2 * sint limit) = Inr (vectors, None)"
    and dl: "distinct (map ID lexical)" and dv: "distinct (map ID vectors)"
  shows "\<exists>out. HybridSearch lower ops vsrt msrt db query (Some embedding) limit = Inr (out, None) \<and>
      (\<forall>r \<in> set out. ID r \<in> ID ` set lexical \<union> ID ` set vectors \<and>
                       Score r = rrfScore ops lexical vectors (ID r)) \<and>
      distinct (map ID out) \<and>
      sorted_wrt (\<lambda>a b. \<not> f64_gt ops (Score b) (Score a)) out \<and>
      length out = min (nat (sint limit)) (card (ID ` set lexical \<union> ID ` set vectors)) \<and>
      (\<forall>k \<in> ID ` set lexical \<union> ID ` set vectors. k \<notin> ID ` set out \<longrightarrow>
         (\<forall>r \<in> set out. \<not> f64_gt ops (rrfScore ops lexical vectors k) (Score r)))"
proof -
  from lim have l0: "0 \<le> sint limit" by simp
  have dbl: "sint (limit * 2) = 2 * sint limit" using lim small by (rule sint_double_small)
  obtain out where f: "fuse ops msrt lexical vectors (sint limit) = Inr out"
    and props: "(\<forall>r \<in> set out. ID r \<in> ID ` set lexical \<union> ID ` set vectors \<and>
                       Score r = rrfScore ops lexical vectors (ID r)) \<and>
      distinct (map ID out) \<and>
      sorted_wrt (\<lambda>a b. \<not> f64_gt ops (Score b) (Score a)) out \<and>
      length out = min (nat (sint limit)) (card (ID ` set lexical \<union> ID ` set vectors)) \<and>
      (\<forall>k \<in> ID ` set lexical \<union> ID ` set vectors. k \<notin> ID ` set out \<longrightarrow>
         (\<forall>r \<in> set out. \<not> f64_gt ops (rrfScore ops lexical vectors k) (Score r)))"
    using fuse_spec [OF srt l0 dl dv] by blast
  have "HybridSearch lower ops vsrt msrt db query (Some embedding) limit = Inr (out, None)"
    by (simp add: HybridSearch_def dbl lx vc f)
  with props show ?thesis by blast
qed

lemma insertLess_mset: "mset (insertLess cmp x ys) = add_mset x (mset ys)"
  by (induction ys) simp_all

lemma insertLess_set: "set (insertLess cmp x ys) = insert x (set ys)"
  by (induction ys) auto

lemma insertLess_sorted:
  fixes f :: "'a \<Rightarrow> real"
  assumes "sorted_wrt (\<lambda>a b. f b \<le> f a) ys"
  shows "sorted_wrt (\<lambda>a b. f b \<le> f a) (insertLess (\<lambda>a b. f a > f b) x ys)"
  using assms
proof (induction ys)
  case Nil
  then show ?case by simp
next
  case (Cons y ys)
  show ?case
  proof (cases "f x > f y")
    case True
    with Cons.prems have "\<forall>z \<in> set ys. f z \<le> f x" by auto
    with True Cons.prems show ?thesis by simp
  next
    case False
    with Cons show ?thesis by (auto simp: insertLess_set)
  qed
qed

lemma insertionSort_acc:
  fixes f :: "'a \<Rightarrow> real"
  shows "mset (foldl (\<lambda>acc x. insertLess cmp x acc) acc xs) = mset acc + mset xs"
    and "sorted_wrt (\<lambda>a b. f b \<le> f a) acc \<Longrightarrow>
         sorted_wrt (\<lambda>a b. f b \<le> f a) (foldl (\<lambda>acc x. insertLess (\<lambda>a b. f a > f b) x acc) acc xs)"
  by (induction xs arbitrary: acc) (simp_all add: insertLess_mset insertLess_sorted)

lemma sortsByScoreDesc_insertion: "sortsByScoreDesc exact_fpu insertionSort"
  unfolding sortsByScoreDesc_def insertionSort_def
proof (intro allI conjI)
  fix xs :: "(int \<times> real) list"
  show "mset (foldl (\<lambda>acc x. insertLess (\<lambda>a b. f64_gt exact_fpu (snd a) (snd b)) x acc) [] xs) = mset xs"
    by (simp add: insertionSort_acc(1))
  have "sorted_wrt (\<lambda>a b. snd b \<le> snd a)
      (foldl (\<lambda>acc x. insertLess (\<lambda>a b. snd a > snd b) x acc) [] xs)"
    by (rule insertionSort_acc(2)) simp
  then show "sorted_wrt (\<lambda>a b. \<not> f64_gt exact_fpu (snd b) (snd a))
      (foldl (\<lambda>acc x. insertLess (\<lambda>a b. f64_gt exact_fpu (snd a) (snd b)) x acc) [] xs)"
    by (simp add: exact_fpu_def not_less)
qed

lemma mini_lexical:
  "SearchTrigrams asciiLower exact_fpu (sqlite (orderByMatchCountDesc byAscendingId) miniStore)
     (runes_of ''abcd'') 4 =
     ([\<lparr>ID = 1, Score = 1, Snippet = ''abcd''\<rparr>, \<lparr>ID = 2, Score = 1 / 2, Snippet = ''bcde''\<rparr>], None)"
proof -
  have ne: "[runes_of ''abc'', runes_of ''bcd''] \<noteq> []" by simp
  have "SearchTrigrams asciiLower exact_fpu (sqlite (orderByMatchCountDesc byAscendingId) miniStore)
      (runes_of ''abcd'') 4 =
      (map (lexResult exact_fpu 2)
         (sql_limit 4 (orderByMatchCountDesc byAscendingId
            [(1, runes_of ''abcd'', 2), (2, runes_of ''bcde'', 1)])), None)"
    using SearchTrigrams_sqlite [OF mini_query_abcd ne, of exact_fpu
        "orderByMatchCountDesc byAscendingId" miniStore 4] mini_groups_abcd
    by (simp add: numeral_2_eq_2)
  then show ?thesis
    using mini_results_abcd by (simp add: mini_order_abcd sql_limit_def)
qed

lemma mini_decode:
  "bytesToFloat32Slice exact_fpu [3, 0, 0, 0, 4, 0, 0, 0] = [3, 4]"
  "bytesToFloat32Slice exact_fpu [4, 0, 0, 0, 3, 0, 0, 0] = [4, 3]"
  "bytesToFloat32Slice exact_fpu [0, 0, 0, 0, 5, 0, 0, 0] = [0, 5]"
  by (simp_all add: bytesToFloat32Slice_def uint32le_def exact_fpu_def upt_rec)

lemma mini_cosine:
  "cosineSimilarity exact_fpu [0, 5] [3, 4] = 4 / 5"
  "cosineSimilarity exact_fpu [0, 5] [4, 3] = 3 / 5"
  "cosineSimilarity exact_fpu [0, 5] [0, 5] = 1"
  by (simp_all add: cosineSimilarity_def cosineSums_def exact_fpu_def)

lemma mini_vectors:
  "SearchVectors exact_fpu insertionSort (sqlite ord miniStore) [0, 5] 4 =
     Inr ([\<lparr>ID = 3, Score = 1, Snippet = ''zzzz''\<rparr>,
           \<lparr>ID = 1, Score = 4 / 5, Snippet = ''abcd''\<rparr>,
           \<lparr>ID = 2, Score = 3 / 5, Snippet = ''bcde''\<rparr>], None)"
proof -
  have snip: "snippetOf (runes_of ''abcd'') = ''abcd''" "snippetOf (runes_of ''bcde'') = ''bcde''"
    "snippetOf (runes_of ''zzzz'') = ''zzzz''"
    by (simp_all add: snippetOf_def utf8_def EncodeRune_def runes_of_def char_of_def bit_Suc_0_iff)
  have join: "embeddingJoin miniStore =
      [(1, [3, 0, 0, 0, 4, 0, 0, 0], runes_of ''abcd''),
       (2, [4, 0, 0, 0, 3, 0, 0, 0], runes_of ''bcde''),
       (3, [0, 0, 0, 0, 5, 0, 0, 0], runes_of ''zzzz'')]"
    by (simp add: embeddingJoin_def miniStore_def)
  have rows: "vectorRows exact_fpu [0, 5] (map Inr (embeddingJoin miniStore)) [] =
      Inr [\<lparr>ID = 1, Score = 4 / 5, Snippet = ''abcd''\<rparr>,
           \<lparr>ID = 2, Score = 3 / 5, Snippet = ''bcde''\<rparr>,
           \<lparr>ID = 3, Score = 1, Snippet = ''zzzz''\<rparr>]"
    by (simp add: join mini_decode mini_cosine snip)
  have srt: "insertionSort (\<lambda>a b. f64_gt exact_fpu (Score a) (Score b))
          [\<lparr>ID = 1, Score = 4 / 5 :: real, Snippet = ''abcd''\<rparr>,
           \<lparr>ID = 2, Score = 3 / 5, Snippet = ''bcde''\<rparr>,
           \<lparr>ID = 3, Score = 1, Snippet = ''zzzz''\<rparr>] =
      [\<lparr>ID = 3, Score = 1, Snippet = ''zzzz''\<rparr>,
       \<lparr>ID = 1, Score = 4 / 5, Snippet = ''abcd''\<rparr>,
       \<lparr>ID = 2, Score = 3 / 5, Snippet = ''bcde''\<rparr>]"
    by (simp add: insertionSort_def exact_fpu_def)
  show ?thesis
    by (simp add: SearchVectors_def sqlite_def rows srt limitTo_def)
qed

lemma mini_fuse:
  "fuse exact_fpu insertionSort
     [\<lparr>ID = 1, Score = 1, Snippet = ''abcd''\<rparr>, \<lparr>ID = 2, Score = 1 / 2, Snippet = ''bcde''\<rparr>]
     [\<lparr>ID = 3, Score = 1, Snippet = ''zzzz''\<rparr>,
      \<lparr>ID = 1, Score = 4 / 5, Snippet = ''abcd''\<rparr>,
      \<lparr>ID = 2, Score = 3 / 5, Snippet = ''bcde''\<rparr>] 2 =
   Inr [\<lparr>ID = 1, Score = 1 / 61 + 1 / 62, Snippet = ''abcd''\<rparr>,
        \<lparr>ID = 2, Score = 1 / 62 + 1 / 63, Snippet = ''bcde''\<rparr>]"
  by (simp add: fuse_def rrfTerm_def exact_fpu_def insertionSort_def limitTo_def)

text \<open>
  The fusion on the three-document store with exact arithmetic, query \<^verbatim>\<open>abcd\<close>, query
  vector (0, 5) and limit 2: document 3 is first in the vector list but in one list only,
  and is cut.
\<close>

lemma HybridSearch_fusion_example:
  "sortsByScoreDesc exact_fpu insertionSort \<and> 0 < sint (2 :: 64 word) \<and>
   sint (2 :: 64 word) < 2 ^ 62 \<and>
   (\<exists>out. HybridSearch asciiLower exact_fpu insertionSort insertionSort
             (sqlite (orderByMatchCountDesc byAscendingId) miniStore) (runes_of ''abcd'')
             (Some [0, 5]) 2 =
           Inr (out, None) \<and> length out = 2 \<and> distinct (map ID out)) \<and>
   HybridSearch asciiLower exact_fpu insertionSort insertionSort
     (sqlite (orderByMatchCountDesc byAscendingId) miniStore) (runes_of ''abcd'') (Some [0, 5]) 2 =
   Inr ([\<lparr>ID = 1, Score = 1 / 61 + 1 / 62, Snippet = ''abcd''\<rparr>,
         \<lparr>ID = 2, Score = 1 / 62 + 1 / 63, Snippet = ''bcde''\<rparr>], None)"
proof -
  let ?lexical = "[\<lparr>ID = 1, Score = 1 :: real, Snippet = ''abcd''\<rparr>,
                   \<lparr>ID = 2, Score = 1 / 2, Snippet = ''bcde''\<rparr>]"
  let ?vectors = "[\<lparr>ID = 3, Score = 1 :: real, Snippet = ''zzzz''\<rparr>,
                   \<lparr>ID = 1, Score = 4 / 5, Snippet = ''abcd''\<rparr>,
                   \<lparr>ID = 2, Score = 3 / 5, Snippet = ''bcde''\<rparr>]"
  let ?db = "sqlite (orderByMatchCountDesc byAscendingId) miniStore"
  have pos: "0 < sint (2 :: 64 word)" by simp
  have small: "sint (2 :: 64 word) < 2 ^ 62" by simp
  have dl: "distinct (map ID ?lexical)" by simp
  have dv: "distinct (map ID ?vectors)" by simp
  have lx: "SearchTrigrams asciiLower exact_fpu ?db (runes_of ''abcd'') (2 * sint (2 :: 64 word)) =
      (?lexical, None)"
    using mini_lexical by simp
  have vc: "SearchVectors exact_fpu insertionSort ?db [0, 5] (2 * sint (2 :: 64 word)) =
      Inr (?vectors, None)"
    using mini_vectors [of "orderByMatchCountDesc byAscendingId"] by simp
  obtain out where
    o: "HybridSearch asciiLower exact_fpu insertionSort insertionSort ?db (runes_of ''abcd'')
          (Some [0, 5]) 2 = Inr (out, None)"
    and d: "distinct (map ID out)"
    and l: "length out = min (nat (sint (2 :: 64 word))) (card (ID ` set ?lexical \<union> ID ` set ?vectors))"
    using HybridSearch_fusion [OF sortsByScoreDesc_insertion pos small lx vc dl dv]
    by blast
  have "card (ID ` set ?lexical \<union> ID ` set ?vectors) = 3" by simp
  with l have "length out = 2" by simp
  with o d have ex: "\<exists>out. HybridSearch asciiLower exact_fpu insertionSort insertionSort ?db
             (runes_of ''abcd'') (Some [0, 5]) 2 =
           Inr (out, None) \<and> length out = 2 \<and> distinct (map ID out)"
    by blast
  have val: "HybridSearch asciiLower exact_fpu insertionSort insertionSort ?db (runes_of ''abcd'')
      (Some [0, 5]) 2 =
      Inr ([\<lparr>ID = 1, Score = 1 / 61 + 1 / 62, Snippet = ''abcd''\<rparr>,
            \<lparr>ID = 2, Score = 1 / 62 + 1 / 63, Snippet = ''bcde''\<rparr>], None)"
  proof -
    have four: "sint ((2 :: 64 word) * 2) = 4" by simp
    have two: "sint (2 :: 64 word) = 2" by simp
    show ?thesis
      by (simp only: HybridSearch_def four two mini_lexical mini_vectors mini_fuse
          prod.case option.case sum.case)
  qed
  from ex val sortsByScoreDesc_insertion pos small show ?thesis by simp
qed

lemma SearchTrigrams_sqlite_ok:
  "\<exists>rs. SearchTrigrams lower ops (sqlite ord st) query limit = (rs, None)"
proof (cases "GenerateTrigrams lower (ToLower lower query) = []")
  case True
  then show ?thesis by (simp add: SearchTrigrams_sqlite_empty)
next
  case False
  then show ?thesis by (simp add: SearchTrigrams_sqlite [OF refl])
qed

lemma vectorRows_Inr:
  "\<exists>out. vectorRows ops queryEmbedding (map Inr rows) acc = Inr out"
  by (induction rows arbitrary: acc) auto

lemma limitTo_negative: "limit < 0 \<Longrightarrow> limitTo xs limit = Inl SliceBoundsOutOfRange"
  by (simp add: limitTo_def)

lemma SearchVectors_negative:
  assumes "limit < 0"
  shows "SearchVectors ops vsrt (sqlite ord st) queryEmbedding limit = Inl SliceBoundsOutOfRange"
proof -
  obtain out where "vectorRows ops queryEmbedding (map Inr (embeddingJoin st)) [] = Inr out"
    using vectorRows_Inr by blast
  then show ?thesis
    by (simp add: SearchVectors_def sqlite_def limitTo_negative [OF assms])
qed

lemma HybridSearch_overflow:
  assumes "2 ^ 62 \<le> sint limit"
  shows "HybridSearch lower ops vsrt msrt (sqlite ord st) query (Some embedding) limit =
           Inl SliceBoundsOutOfRange"
proof -
  have neg: "sint (limit * 2) < 0" using assms by (rule sint_double_big)
  obtain rs where "SearchTrigrams lower ops (sqlite ord st) query (sint (limit * 2)) = (rs, None)"
    using SearchTrigrams_sqlite_ok by blast
  then show ?thesis
    by (simp add: HybridSearch_def SearchVectors_negative [OF neg])
qed

text \<open>
  Claim C2 fails at the limit \<open>2 ^ 62\<close>, a positive value of Go's \<^verbatim>\<open>int\<close> that the search
  tool passes on as it receives it. Twice the limit wraps around to \<open>- 2 ^ 63\<close>. On every
  store, for every query and every query vector, the lexical search succeeds (its
  \<^verbatim>\<open>LIMIT\<close> is negative and cuts nothing), and the vector search then evaluates
  \<^verbatim>\<open>scoredDocs[:limit]\<close> with the negative limit, because its guard
  \<^verbatim>\<open>len(scoredDocs) > limit\<close> holds for every length: the call panics and no fused list is
  returned. The same call without a query vector returns the lexical result.
\<close>

theorem HybridSearch_limit_overflow:
  "0 < sint (2 ^ 62 :: 64 word) \<and>
   sint ((2 ^ 62 :: 64 word) * 2) = - (2 ^ 63) \<and>
   HybridSearch lower ops vsrt msrt (sqlite ord st) query (Some embedding) (2 ^ 62) =
     Inl SliceBoundsOutOfRange \<and>
   HybridSearch lower ops vsrt msrt (sqlite ord st) query None (2 ^ 62) =
     Inr (SearchTrigrams lower ops (sqlite ord st) query (2 ^ 62))"
proof -
  have big: "(2 :: int) ^ 62 \<le> sint (2 ^ 62 :: 64 word)" by simp
  have pos: "0 < sint (2 ^ 62 :: 64 word)" by simp
  have "HybridSearch lower ops vsrt msrt (sqlite ord st) query None (2 ^ 62) =
      Inr (SearchTrigrams lower ops (sqlite ord st) query (sint (2 ^ 62 :: 64 word)))"
    using pos by (rule HybridSearch_None_sqlite)
  then have nil: "HybridSearch lower ops vsrt msrt (sqlite ord st) query None (2 ^ 62) =
      Inr (SearchTrigrams lower ops (sqlite ord st) query (2 ^ 62))"
    by simp
  have wrap: "sint ((2 ^ 62 :: 64 word) * 2) = - (2 ^ 63)" by simp
  from pos wrap HybridSearch_overflow [OF big] nil show ?thesis by blast
qed

end
